theory Spec2Isabelle
  imports Main
begin

section \<open>Strings\<close>

text \<open>
  A JavaScript string is modelled as a \<^typ>\<open>string\<close>, each \<^typ>\<open>char\<close> standing for one
  code unit below 256 (the Latin-1 range); code units above U+00FF are outside the model.
  \<open>toLowerCase\<close> and \<open>trim\<close> are the ECMAScript operations restricted to that range:
  lower-casing moves A-Z and the upper-case letters U+00C0..U+00DE (except the
  multiplication sign U+00D7) up by 32, and \<open>trim\<close> strips TAB, LF, VT, FF, CR, SPACE and
  NBSP from both ends.
\<close>

definition toLowerChar :: "char \<Rightarrow> char" where
  "toLowerChar c =
     (let n = (of_char c :: nat)
      in if (65 \<le> n \<and> n \<le> 90) \<or> (192 \<le> n \<and> n \<le> 222 \<and> n \<noteq> 215)
         then char_of (n + 32) else c)"

definition toLowerCase :: "string \<Rightarrow> string" where
  "toLowerCase s = map toLowerChar s"

definition isWhiteSpace :: "char \<Rightarrow> bool" where
  "isWhiteSpace c = ((of_char c :: nat) \<in> {9, 10, 11, 12, 13, 32, 160})"

definition trimStart :: "string \<Rightarrow> string" where
  "trimStart s = dropWhile isWhiteSpace s"

definition trim :: "string \<Rightarrow> string" where
  "trim s = rev (trimStart (rev (trimStart s)))"

text \<open>Truthiness of an optional string: \<open>null\<close>, \<open>undefined\<close> and \<open>""\<close> are falsy.\<close>

definition truthy :: "string option \<Rightarrow> bool" where
  "truthy v = (case v of None \<Rightarrow> False | Some s \<Rightarrow> s \<noteq> [])"

text \<open>Decimal rendering of a number inside a template string.\<close>

fun digitsOf :: "nat \<Rightarrow> string" where
  "digitsOf n =
     (if n < 10 then [char_of (48 + n)]
      else digitsOf (n div 10) @ [char_of (48 + n mod 10)])"

text \<open>\<open>Array.prototype.join\<close> on strings.\<close>

fun join :: "string \<Rightarrow> string list \<Rightarrow> string" where
  "join sep [] = []"
| "join sep [x] = x"
| "join sep (x # y # ys) = x @ sep @ join sep (y # ys)"

section \<open>Data model\<close>

datatype conversation_status = Open | Closed | Spam

datatype message_role = User | Staff | AiAssistant | Tool

datatype message_status = Queueing | Sent | Failed | Draft | Discarded

text \<open>The mailbox preference \<open>autoRespondEmailToChat\<close>: \<open>"draft" | "reply" | null\<close>.\<close>

datatype auto_respond = RespondDraft | RespondReply

datatype node_env = Development | Production | Test

text \<open>Exceptions, as values.\<close>

datatype error =
    RequestFailed string
  | AssertionError
  | NonRetriableError string
  | AIError string
  | UploadError string

fun errorToString :: "error \<Rightarrow> string" where
  "errorToString (RequestFailed t) = ''Error: Request failed: '' @ t"
| "errorToString AssertionError = ''Error: Value is undefined''"
| "errorToString (NonRetriableError t) = ''NonRetriableError: '' @ t"
| "errorToString (AIError t) = ''Error: '' @ t"
| "errorToString (UploadError t) = ''Error: '' @ t"

record preferences =
  autoRespondEmailToChat :: "auto_respond option"

record mailbox =
  mailbox_id :: nat
  mailbox_preferences :: "preferences option"

record gmail_support_email =
  gse_id :: nat
  email :: string
  historyId :: "nat option"

record basic_user_profile =
  user_id :: string
  user_email :: string

text \<open>
  The columns of a conversation that \<open>createNewConversation\<close> returns
  (\<open>id\<close>, \<open>slug\<close>, \<open>status\<close>, \<open>assignedToAI\<close>), and the whole row as an extension of
  them.
\<close>

record conversation_summary =
  c_id :: nat
  slug :: string
  c_status :: conversation_status
  assignedToAI :: bool

record conversation = conversation_summary +
  c_emailFrom :: "string option"
  emailFromName :: "string option"
  subject :: "string option"
  closedAt :: "nat option"
  assignedToId :: "string option"
  lastMessageAt :: "nat option"
  lastUserEmailCreatedAt :: "nat option"
  lastReadAt :: "nat option"
  updatedAt :: nat

text \<open>\<open>NewConversationMessage\<close>, the argument of \<open>createConversationMessage\<close>.\<close>

record new_conversation_message =
  n_conversationId :: nat
  n_role :: message_role
  n_status :: "message_status option"
  n_userId :: "string option"
  n_gmailMessageId :: "string option"
  n_gmailThreadId :: "string option"
  n_messageId :: "string option"
  n_references :: "string option"
  n_emailFrom :: "string option"
  n_emailTo :: "string option"
  n_emailCc :: "string list option"
  n_emailBcc :: "string list option"
  n_body :: "string option"
  n_cleanedUpText :: "string option"
  n_responseToId :: "nat option"
  n_isPinned :: "bool option"
  n_createdAt :: "nat option"

text \<open>A row of \<open>conversationMessages\<close>.\<close>

record conversation_message =
  m_id :: nat
  conversationId :: nat
  role :: message_role
  status :: "message_status option"
  userId :: "string option"
  gmailMessageId :: "string option"
  gmailThreadId :: "string option"
  messageId :: "string option"
  references :: "string option"
  emailFrom :: "string option"
  emailTo :: "string option"
  emailCc :: "string list option"
  emailBcc :: "string list option"
  body :: "string option"
  cleanedUpText :: "string option"
  responseToId :: "nat option"
  isPinned :: bool
  createdAt :: nat

text \<open>The audit log of conversation updates.\<close>

record conversation_changes =
  ch_status :: "conversation_status option"
  ch_assignedToId :: "string option option"
  ch_assignedToAI :: "bool option"

record conversation_event =
  ev_conversationId :: nat
  changes :: conversation_changes
  byUserId :: "string option"
  reason :: "string option"

section \<open>The event dispatcher (jobs/trigger.ts)\<close>

datatype event_name =
    FilesPreviewGenerate
  | ConversationsEmbeddingCreate
  | ConversationsMessageCreated
  | ConversationsEmailEnqueued
  | ConversationsAutoResponseCreate
  | ConversationsBulkUpdate
  | ConversationsUpdateSuggestedActions
  | GmailWebhookReceived
  | FaqsEmbeddingCreate
  | GmailImportRecentThreads
  | GmailImportGmailThreads
  | ReportsWeekly
  | ReportsDaily
  | WebsitesCrawlCreate
  | MessagesFlaggedBad
  | ConversationsAutoCloseCheck
  | ConversationsAutoCloseProcessMailbox
  | ConversationsHumanSupportRequested
  | SlackAgentMessage
  | ConversationsSendFollowerNotification

text \<open>The \<open>jobs\<close> column of the \<open>events\<close> table.\<close>

fun eventJobs :: "event_name \<Rightarrow> string list" where
  "eventJobs FilesPreviewGenerate = [''generateFilePreview'']"
| "eventJobs ConversationsEmbeddingCreate = [''embeddingConversation'']"
| "eventJobs ConversationsMessageCreated =
     [''indexConversationMessage'', ''generateConversationSummaryEmbeddings'',
      ''mergeSimilarConversations'', ''publishNewMessageEvent'', ''notifyVipMessage'',
      ''categorizeConversationToIssueGroup'']"
| "eventJobs ConversationsEmailEnqueued = [''postEmailToGmail'']"
| "eventJobs ConversationsAutoResponseCreate = [''handleAutoResponse'']"
| "eventJobs ConversationsBulkUpdate = [''bulkUpdateConversations'']"
| "eventJobs ConversationsUpdateSuggestedActions = [''updateSuggestedActions'']"
| "eventJobs GmailWebhookReceived = [''handleGmailWebhookEvent'']"
| "eventJobs FaqsEmbeddingCreate = [''embeddingFaq'']"
| "eventJobs GmailImportRecentThreads = [''importRecentGmailThreads'']"
| "eventJobs GmailImportGmailThreads = [''importGmailThreads'']"
| "eventJobs ReportsWeekly = [''generateMailboxWeeklyReport'']"
| "eventJobs ReportsDaily = [''generateMailboxDailyReport'']"
| "eventJobs WebsitesCrawlCreate = [''crawlWebsite'']"
| "eventJobs MessagesFlaggedBad = [''suggestKnowledgeBankChanges'']"
| "eventJobs ConversationsAutoCloseCheck = [''closeInactiveConversations'']"
| "eventJobs ConversationsAutoCloseProcessMailbox = [''closeInactiveConversationsForMailbox'']"
| "eventJobs ConversationsHumanSupportRequested =
     [''autoAssignConversation'', ''publishRequestHumanSupport'']"
| "eventJobs SlackAgentMessage = [''handleSlackAgentMessage'']"
| "eventJobs ConversationsSendFollowerNotification = [''sendFollowerNotification'']"

text \<open>The payloads that the modelled code sends.\<close>

datatype event_data =
    MessageCreatedData nat nat
  | MessageIdData nat
  | ConversationSlugData string
  | FollowerNotificationData nat string "string option"

text \<open>One record of the \<open>jobs\<close> queue: \<open>{event, job, data}\<close> and the queue's delay.\<close>

record job =
  job_event :: event_name
  job_name :: string
  job_data :: event_data
  job_delay :: nat

datatype realtime_event =
    ConversationUpdated nat
  | ConversationStatusChanged nat conversation_status conversation_status

text \<open>
  The relational store, the job queue, the realtime sink, the error tracker and the
  clock that \<open>new Date()\<close> reads.
\<close>

record db =
  conversations :: "conversation list"
  conversationMessages :: "conversation_message list"
  conversationEvents :: "conversation_event list"
  gmailSupportEmails :: "gmail_support_email list"
  jobs :: "job list"
  published :: "realtime_event list"
  captured :: "error list"
  clock :: nat

text \<open>
  \<open>triggerEvent(event, data, { sleepSeconds = 0 })\<close>: one payload per job of the event,
  sent to the queue as one batch with the delay.
\<close>

definition triggerEvent :: "event_name \<Rightarrow> event_data \<Rightarrow> nat option \<Rightarrow> db \<Rightarrow> db" where
  "triggerEvent event data sleepSeconds s =
     (let delay = (case sleepSeconds of None \<Rightarrow> 0 | Some n \<Rightarrow> n);
          payloads = map (\<lambda>j. \<lparr>job_event = event, job_name = j, job_data = data,
                                job_delay = delay\<rparr>) (eventJobs event)
      in s\<lparr>jobs := jobs s @ payloads\<rparr>)"

section \<open>External collaborators\<close>

text \<open>
  What the modelled code calls and the sources do not contain: the Gmail client, the
  mail parser, the HTML helpers, the AI query, the staff directory and the constants.
  Each is a parameter. \<open>throwInThisEnvironment\<close> is the one decision of
  \<open>captureExceptionAndThrowIfDevelopment\<close> (lib/shared/sentry): whether, having reported
  the exception, it throws it again in the running process.
\<close>

record parsed_mailbox =
  address :: string
  name :: "string option"

text \<open>A value that is one string or an array of strings; for an address field, the
  \<open>text\<close> of the one address object or of each object of the array.\<close>

datatype one_or_many = One string | Many "string list"

text \<open>An attachment, with the outcome of storing it: the exception that inserting,
  uploading or previewing it raises, if any, and the moment at which its task settles.\<close>

record attachment =
  filename :: "string option"
  uploadFailure :: "error option"
  settledAt :: nat

record gmail_message =
  gm_id :: "string option"
  threadId :: "string option"
  labelIds :: "string list option"

text \<open>The decoded webhook payload.\<close>

record webhook_data =
  emailAddress :: string
  wd_historyId :: nat

text \<open>
  \<open>ParsedMail\<close>: \<open>html\<close> is \<open>None\<close> for \<open>false\<close> (no HTML part) and the address fields hold
  the \<open>text\<close> of each address object.
\<close>

record parsed_mail =
  pm_from :: "string option"
  pm_to :: "one_or_many option"
  pm_cc :: "one_or_many option"
  pm_bcc :: "one_or_many option"
  pm_subject :: "string option"
  pm_html :: "string option"
  pm_text :: "string option"
  pm_textAsHtml :: "string option"
  pm_messageId :: "string option"
  pm_references :: "one_or_many option"
  pm_date :: "nat option"
  pm_attachments :: "attachment list"

record env =
  NODE_ENV :: node_env
  throwInThisEnvironment :: bool
  EMAIL_UNDO_COUNTDOWN_SECONDS :: nat
  getMessageById :: "string \<Rightarrow> error + parsed_mail"
  parseEmailAddress :: "string \<Rightarrow> parsed_mailbox option"
  extractAndUploadInlineImages :: "string \<Rightarrow> string \<times> string list"
  htmlToText :: "string \<Rightarrow> string"
  extractQuotations :: "string \<Rightarrow> string"
  getBasicProfileByEmail :: "string \<Rightarrow> basic_user_profile option"
  matchesTransactionalEmailAddress :: "string \<Rightarrow> bool"
  runAIQuery :: "mailbox \<Rightarrow> string \<Rightarrow> error + string"
  extractAddresses :: "string \<Rightarrow> string list"
  bodyInnerHTML :: "string \<Rightarrow> string option"
  normalizeNFKD :: "string \<Rightarrow> string"
  generateSlug :: "nat \<Rightarrow> string"

text \<open>\<open>captureExceptionAndLog\<close>: the exception goes to the error tracker.\<close>

definition captureExceptionAndLog :: "error \<Rightarrow> db \<Rightarrow> db" where
  "captureExceptionAndLog e s = s\<lparr>captured := captured s @ [e]\<rparr>"

text \<open>
  \<open>captureExceptionAndThrowIfDevelopment\<close> of lib/shared/sentry is not among the sources:
  the exception is reported, and the result says whether it is thrown again (\<open>Some e\<close>)
  or swallowed (\<open>None\<close>). The one decision it takes is the field
  \<open>throwInThisEnvironment\<close> of the environment.
\<close>

definition captureExceptionAndThrowIfDevelopment :: "env \<Rightarrow> error \<Rightarrow> db \<Rightarrow> db \<times> error option" where
  "captureExceptionAndThrowIfDevelopment en e s =
     (captureExceptionAndLog e s, if throwInThisEnvironment en then Some e else None)"

section \<open>The conversation state machine\<close>

text \<open>The \<open>set\<close> object of an update: the fields it names.\<close>

record conversation_update =
  set_status :: "conversation_status option"
  set_assignedToId :: "string option option"
  set_assignedToAI :: "bool option"
  set_lastMessageAt :: "nat option"
  set_lastUserEmailCreatedAt :: "nat option"
  set_lastReadAt :: "nat option"

definition noUpdate :: conversation_update where
  "noUpdate = \<lparr>set_status = None, set_assignedToId = None, set_assignedToAI = None,
     set_lastMessageAt = None, set_lastUserEmailCreatedAt = None, set_lastReadAt = None\<rparr>"

record update_options =
  upd_set :: conversation_update
  upd_byUserId :: "string option"
  upd_message :: "string option"
  skipRealtimeEvents :: bool

definition orElse :: "'a option \<Rightarrow> 'a \<Rightarrow> 'a" where
  "orElse v d = (case v of None \<Rightarrow> d | Some x \<Rightarrow> x)"

text \<open>
  Modelled from the spec: the row after an update (section 4.5). The fields that \<open>set\<close>
  names are overwritten, \<open>updatedAt\<close> is stamped, and \<open>closedAt\<close> becomes now when the
  status is set to closed.
\<close>

definition applyUpdate :: "conversation_update \<Rightarrow> nat \<Rightarrow> conversation \<Rightarrow> conversation" where
  "applyUpdate u now c =
     c\<lparr>c_status := orElse (set_status u) (c_status c),
       assignedToId := orElse (set_assignedToId u) (assignedToId c),
       assignedToAI := orElse (set_assignedToAI u) (assignedToAI c),
       lastMessageAt := (case set_lastMessageAt u of None \<Rightarrow> lastMessageAt c | Some t \<Rightarrow> Some t),
       lastUserEmailCreatedAt :=
         (case set_lastUserEmailCreatedAt u of None \<Rightarrow> lastUserEmailCreatedAt c | Some t \<Rightarrow> Some t),
       lastReadAt := (case set_lastReadAt u of None \<Rightarrow> lastReadAt c | Some t \<Rightarrow> Some t),
       closedAt := (if set_status u = Some Closed then Some now else closedAt c),
       updatedAt := now\<rparr>"

definition findConversation :: "nat \<Rightarrow> db \<Rightarrow> conversation option" where
  "findConversation i s = find (\<lambda>c. c_id c = i) (conversations s)"

text \<open>
  Modelled from the spec: the conversation event that an update appends (section 4.5): the
  previous values of the status and assignment fields that \<open>set\<close> names, the acting user
  and the reason.
\<close>

definition eventOf :: "nat \<Rightarrow> update_options \<Rightarrow> conversation \<Rightarrow> conversation_event" where
  "eventOf i opts current =
     \<lparr>ev_conversationId = i,
      changes = \<lparr>ch_status = map_option (\<lambda>_. c_status current) (set_status (upd_set opts)),
                 ch_assignedToId = map_option (\<lambda>_. assignedToId current) (set_assignedToId (upd_set opts)),
                 ch_assignedToAI = map_option (\<lambda>_. assignedToAI current) (set_assignedToAI (upd_set opts))\<rparr>,
      byUserId = upd_byUserId opts,
      reason = upd_message opts\<rparr>"

text \<open>
  Modelled from the spec: \<open>updateConversation\<close> of lib/data/conversation is not among the
  sources; this is the contract of section 4.5. An unknown id returns \<open>null\<close> without side
  effects. Otherwise the row takes the fields of \<open>set\<close> and a fresh \<open>updatedAt\<close>, and
  \<open>closedAt\<close> becomes now when the status is set to closed; a conversation event records
  the previous values of the status and assignment fields that \<open>set\<close> names, with the
  acting user and the reason; unless \<open>skipRealtimeEvents\<close>, \<open>conversation.updated\<close> is
  published, and \<open>conversation.statusChanged\<close> too when the status changed; and
  \<open>conversations/embedding.create\<close> is triggered when the status changed to closed.
\<close>

definition updateConversation :: "nat \<Rightarrow> update_options \<Rightarrow> db \<Rightarrow> db \<times> conversation option" where
  "updateConversation i opts s =
     (case findConversation i s of
        None \<Rightarrow> (s, None)
      | Some current \<Rightarrow>
          let u = upd_set opts;
              updated = applyUpdate u (clock s) current;
              s1 = s\<lparr>conversations :=
                      map (\<lambda>c. if c_id c = i then applyUpdate u (clock s) c else c) (conversations s)\<rparr>;
              s2 = s1\<lparr>conversationEvents := conversationEvents s1 @ [eventOf i opts current]\<rparr>;
              s3 = (if skipRealtimeEvents opts then s2
                    else s2\<lparr>published := published s2 @ [ConversationUpdated i] @
                           (if c_status updated \<noteq> c_status current
                            then [ConversationStatusChanged i (c_status updated) (c_status current)]
                            else [])\<rparr>);
              s4 = (if c_status updated = Closed \<and> c_status current \<noteq> Closed
                    then triggerEvent ConversationsEmbeddingCreate
                           (ConversationSlugData (slug updated)) None s3
                    else s3)
          in (s4, Some updated))"

section \<open>Creating a message (lib/data/conversationMessage.ts)\<close>

text \<open>A fresh primary key, as the store's sequence gives: above every key in use.\<close>

definition freshId :: "nat list \<Rightarrow> nat" where
  "freshId ids = Suc (fold max ids 0)"

text \<open>The row that \<open>insert(...).values(messageValues).returning()\<close> gives back.\<close>

definition insertedMessage :: "new_conversation_message \<Rightarrow> db \<Rightarrow> conversation_message" where
  "insertedMessage n s =
     \<lparr>m_id = freshId (map m_id (conversationMessages s)),
      conversationId = n_conversationId n,
      role = n_role n,
      status = n_status n,
      userId = n_userId n,
      gmailMessageId = n_gmailMessageId n,
      gmailThreadId = n_gmailThreadId n,
      messageId = n_messageId n,
      references = n_references n,
      emailFrom = n_emailFrom n,
      emailTo = n_emailTo n,
      emailCc = n_emailCc n,
      emailBcc = n_emailBcc n,
      body = n_body n,
      cleanedUpText = n_cleanedUpText n,
      responseToId = n_responseToId n,
      isPinned = orElse (n_isPinned n) False,
      createdAt = orElse (n_createdAt n) (clock s)\<rparr>"

text \<open>An entry of \<open>eventsToSend\<close>: name, data and the optional \<open>sleepSeconds\<close>.\<close>

record pending_event =
  pe_name :: event_name
  pe_data :: event_data
  pe_sleepSeconds :: "nat option"

definition eventsToSend :: "env \<Rightarrow> conversation_message \<Rightarrow> pending_event list" where
  "eventsToSend en message =
     (if status message \<noteq> Some Draft
      then [\<lparr>pe_name = ConversationsMessageCreated,
              pe_data = MessageCreatedData (m_id message) (conversationId message),
              pe_sleepSeconds = None\<rparr>] @
           (if truthy (userId message) \<and> (role message = User \<or> role message = Staff)
            then [\<lparr>pe_name = ConversationsSendFollowerNotification,
                    pe_data = FollowerNotificationData (conversationId message)
                                (orElse (userId message) [])
                                (if truthy (cleanedUpText message) then cleanedUpText message else None),
                    pe_sleepSeconds = None\<rparr>]
            else [])
      else []) @
     (if status message = Some Queueing
      then [\<lparr>pe_name = ConversationsEmailEnqueued,
              pe_data = MessageIdData (m_id message),
              pe_sleepSeconds = Some (EMAIL_UNDO_COUNTDOWN_SECONDS en)\<rparr>]
      else [])"

text \<open>
  \<open>event.sleepSeconds ? { sleepSeconds: event.sleepSeconds } : {}\<close>: a zero or absent
  delay is not passed on.
\<close>

definition sendEvent :: "pending_event \<Rightarrow> db \<Rightarrow> db" where
  "sendEvent e s =
     triggerEvent (pe_name e) (pe_data e)
       (case pe_sleepSeconds e of None \<Rightarrow> None | Some n \<Rightarrow> if n = 0 then None else Some n) s"

text \<open>The update of the conversation that follows the insert (lines 396-409).\<close>

definition touch :: "conversation_message \<Rightarrow> nat \<Rightarrow> update_options" where
  "touch m now =
     \<lparr>upd_set = noUpdate\<lparr>set_lastMessageAt := Some now,
                          set_lastUserEmailCreatedAt := (if role m = User then Some now else None),
                          set_lastReadAt := (if role m = User then Some now else None)\<rparr>,
      upd_byUserId = None, upd_message = None, skipRealtimeEvents = True\<rparr>"

definition createConversationMessage ::
  "env \<Rightarrow> new_conversation_message \<Rightarrow> db \<Rightarrow> db \<times> conversation_message" where
  "createConversationMessage en n s =
     (let message = insertedMessage n s;
          s1 = s\<lparr>conversationMessages := conversationMessages s @ [message]\<rparr>;
          (s2, _) = updateConversation (conversationId message) (touch message (clock s1)) s1
      in (fold sendEvent (eventsToSend en message) s2, message))"

section \<open>The Gmail webhook pipeline\<close>

definition IGNORED_GMAIL_CATEGORIES :: "string list" where
  "IGNORED_GMAIL_CATEGORIES =
     [''CATEGORY_PROMOTIONS'', ''CATEGORY_UPDATES'', ''CATEGORY_FORUMS'', ''CATEGORY_SOCIAL'']"

definition isNewThread :: "string \<Rightarrow> string \<Rightarrow> bool" where
  "isNewThread gmailMessageId' gmailThreadId' = (gmailMessageId' = gmailThreadId')"

text \<open>
  \<open>isThankYouOrAutoResponse\<close>: the query's text, lower-cased and trimmed, is compared with
  \<open>"yes"\<close>; an exception of the query is reported and the answer is \<open>false\<close>.
\<close>

definition isThankYouOrAutoResponse :: "env \<Rightarrow> mailbox \<Rightarrow> string \<Rightarrow> db \<Rightarrow> db \<times> bool" where
  "isThankYouOrAutoResponse en mailbox emailContent s =
     (case runAIQuery en mailbox emailContent of
        Inr content \<Rightarrow> (s, trim (toLowerCase content) = ''yes'')
      | Inl e \<Rightarrow> (captureExceptionAndLog e s, False))"

text \<open>
  The comparison in the words of the specification: the text is trimmed and compared with
  \<open>"yes"\<close> ignoring case.
\<close>

definition equalsIgnoringCase :: "string \<Rightarrow> string \<Rightarrow> bool" where
  "equalsIgnoringCase a b = (toLowerCase a = toLowerCase b)"

definition saysYes :: "string \<Rightarrow> bool" where
  "saysYes content = equalsIgnoringCase (trim content) ''yes''"

definition ccUpdate :: "basic_user_profile \<Rightarrow> update_options" where
  "ccUpdate ccStaffUser =
     \<lparr>upd_set = noUpdate\<lparr>set_assignedToId := Some (Some (user_id ccStaffUser)),
                          set_assignedToAI := Some False\<rparr>,
      upd_byUserId = None,
      upd_message = Some ''Auto-assigned based on CC'',
      skipRealtimeEvents = True\<rparr>"

text \<open>The loop of \<open>assignBasedOnCc\<close>: the first address with a staff profile, then \<open>break\<close>.\<close>

fun assignFirstStaff :: "env \<Rightarrow> nat \<Rightarrow> string list \<Rightarrow> db \<Rightarrow> db" where
  "assignFirstStaff en conversationId' [] s = s"
| "assignFirstStaff en conversationId' (ccAddress # rest) s =
     (case getBasicProfileByEmail en ccAddress of
        Some ccStaffUser \<Rightarrow> fst (updateConversation conversationId' (ccUpdate ccStaffUser) s)
      | None \<Rightarrow> assignFirstStaff en conversationId' rest s)"

definition ccAddresses :: "env \<Rightarrow> string \<Rightarrow> gmail_support_email \<Rightarrow> string list" where
  "ccAddresses en emailCc' gmailSupportEmail =
     filter (\<lambda>a. toLowerCase a \<noteq> toLowerCase (email gmailSupportEmail))
       (extractAddresses en emailCc')"

definition assignBasedOnCc :: "env \<Rightarrow> nat \<Rightarrow> string \<Rightarrow> gmail_support_email \<Rightarrow> db \<Rightarrow> db" where
  "assignBasedOnCc en conversationId' emailCc' gmailSupportEmail s =
     assignFirstStaff en conversationId' (ccAddresses en emailCc' gmailSupportEmail) s"

definition addressesToString :: "one_or_many \<Rightarrow> string" where
  "addressesToString v = (case v of Many texts \<Rightarrow> join '', '' texts | One t \<Rightarrow> t)"

text \<open>
  \<open>processGmailAttachments\<close>: the attachments are handled concurrently, each by a task of
  its own; a failure goes to \<open>captureExceptionAndThrowIfDevelopment\<close>. Every task runs to
  its end whatever the others do, and \<open>Promise.all\<close> rejects with the rejection that
  happens first. \<open>settleAll\<close> takes the tasks in the order in which they settle: the
  failures are reported in that order and the first one thrown again is the rejection.
  Tasks that settle at the same moment are taken in the order of the array. The files table
  and the blob store are outside the model.
\<close>

fun settleAll :: "env \<Rightarrow> attachment list \<Rightarrow> db \<Rightarrow> db \<times> error option" where
  "settleAll en [] s = (s, None)"
| "settleAll en (a # rest) s =
     (case uploadFailure a of
        None \<Rightarrow> settleAll en rest s
      | Some e \<Rightarrow>
          (let (s1, thrown) = captureExceptionAndThrowIfDevelopment en e s;
               (s2, later) = settleAll en rest s1
           in (s2, case thrown of Some x \<Rightarrow> Some x | None \<Rightarrow> later)))"

definition processGmailAttachments :: "env \<Rightarrow> attachment list \<Rightarrow> db \<Rightarrow> db \<times> error option" where
  "processGmailAttachments en attachments s = settleAll en (sort_key settledAt attachments) s"

definition newEmailValues ::
  "env \<Rightarrow> parsed_mail \<Rightarrow> parsed_mailbox \<Rightarrow> string \<Rightarrow> string \<Rightarrow> string \<Rightarrow> string \<Rightarrow>
   nat \<Rightarrow> basic_user_profile option \<Rightarrow> nat \<Rightarrow> new_conversation_message" where
  "newEmailValues en parsedEmail parsedEmailFrom processedHtml cleanedUpTxt gmailMessageId'
       gmailThreadId' conversationId' staffUser now =
     (let references' =
            (case pm_references parsedEmail of
               None \<Rightarrow> None
             | Some (Many rs) \<Rightarrow> Some (join '' '' rs)
             | Some (One r) \<Rightarrow> if r = [] then None else Some r);
          emailTo' = map_option addressesToString (pm_to parsedEmail);
          emailCc' = map_option addressesToString (pm_cc parsedEmail);
          emailBcc' = map_option addressesToString (pm_bcc parsedEmail)
      in \<lparr>n_conversationId = conversationId',
          n_role = (if staffUser \<noteq> None then Staff else User),
          n_status = (if staffUser \<noteq> None then Some Sent else None),
          n_userId = map_option user_id staffUser,
          n_gmailMessageId = Some gmailMessageId',
          n_gmailThreadId = Some gmailThreadId',
          n_messageId = (if truthy (pm_messageId parsedEmail) then pm_messageId parsedEmail else None),
          n_references = references',
          n_emailFrom = Some (address parsedEmailFrom),
          n_emailTo = emailTo',
          n_emailCc = (if truthy emailCc' then map_option (extractAddresses en) emailCc' else None),
          n_emailBcc = (if truthy emailBcc' then map_option (extractAddresses en) emailBcc' else None),
          n_body = Some processedHtml,
          n_cleanedUpText = Some cleanedUpTxt,
          n_responseToId = None,
          n_isPinned = Some False,
          n_createdAt = Some (orElse (pm_date parsedEmail) now)\<rparr>)"

text \<open>Lines 139-150: the assignment from the CC field, for a conversation without assignee.\<close>

definition assignFromCc ::
  "env \<Rightarrow> gmail_support_email \<Rightarrow> string option \<Rightarrow> basic_user_profile option \<Rightarrow> nat \<Rightarrow> db \<Rightarrow> db" where
  "assignFromCc en gmailSupportEmail emailCc' staffUser conversationId' s =
     (if truthy emailCc' \<and> staffUser = None
      then (let conversationRecord = findConversation conversationId' s
            in if \<not> truthy (case conversationRecord of None \<Rightarrow> None | Some r \<Rightarrow> assignedToId r)
               then assignBasedOnCc en conversationId' (orElse emailCc' []) gmailSupportEmail s
               else s)
      else s)"

text \<open>
  \<open>createMessageAndProcessAttachments\<close>. The result is the new row, or the exception that
  leaves the function (an attachment failure thrown again).
\<close>

definition createMessageAndProcessAttachments ::
  "env \<Rightarrow> gmail_support_email \<Rightarrow> parsed_mail \<Rightarrow> parsed_mailbox \<Rightarrow> string \<Rightarrow> string \<Rightarrow>
   string \<Rightarrow> string \<Rightarrow> conversation_summary \<Rightarrow> basic_user_profile option \<Rightarrow> db \<Rightarrow>
   db \<times> (error + conversation_message)" where
  "createMessageAndProcessAttachments en gmailSupportEmail parsedEmail parsedEmailFrom processedHtml
       cleanedUpTxt gmailMessageId' gmailThreadId' conversation staffUser s =
     (let emailCc' = map_option addressesToString (pm_cc parsedEmail);
          (s1, newEmail) =
            createConversationMessage en
              (newEmailValues en parsedEmail parsedEmailFrom processedHtml cleanedUpTxt
                 gmailMessageId' gmailThreadId' (c_id conversation) staffUser (clock s)) s;
          s2 = assignFromCc en gmailSupportEmail emailCc' staffUser (c_id conversation) s1;
          (s3, rejected) = processGmailAttachments en (pm_attachments parsedEmail) s2
      in case rejected of
           None \<Rightarrow> (s3, Inr newEmail)
         | Some e \<Rightarrow>
             (let (s4, thrown) = captureExceptionAndThrowIfDevelopment en e s3
              in case thrown of None \<Rightarrow> (s4, Inr newEmail) | Some x \<Rightarrow> (s4, Inl x)))"

text \<open>
  \<open>parseEmailBody\<close>. \<open>replaceCRLF\<close> is \<open>replace(/\r\n/g, "<br/>")\<close>; \<open>stripTrailingBr\<close> is
  \<open>replace(/(<br\s*\/?>)+$/i, "")\<close>, which removes the match that starts leftmost: the
  longest suffix made of line-break tags only.
\<close>

fun replaceCRLF :: "string \<Rightarrow> string" where
  "replaceCRLF (c # d # cs) =
     (if c = CHR 0x0D \<and> d = CHR 0x0A then ''<br/>'' @ replaceCRLF cs
      else c # replaceCRLF (d # cs))"
| "replaceCRLF cs = cs"

text \<open>One \<open><br\s*\/?>\<close> at the start of the string, case-insensitively: what follows it.\<close>

definition matchBrTag :: "string \<Rightarrow> string option" where
  "matchBrTag t =
     (case t of
        a # b # c # rest \<Rightarrow>
          if a = CHR ''<'' \<and> toLowerChar b = CHR ''b'' \<and> toLowerChar c = CHR ''r''
          then (case dropWhile isWhiteSpace rest of
                  d # rest' \<Rightarrow>
                    if d = CHR ''>'' then Some rest'
                    else if d = CHR ''/'' then
                      (case rest' of e # rest'' \<Rightarrow> if e = CHR ''>'' then Some rest'' else None
                       | [] \<Rightarrow> None)
                    else None
                | [] \<Rightarrow> None)
          else None
      | _ \<Rightarrow> None)"

text \<open>The whole string is \<open>(<br\s*\/?>)+\<close>. The fuel bounds the number of tags.\<close>

fun brTags :: "nat \<Rightarrow> string \<Rightarrow> bool" where
  "brTags 0 t = False"
| "brTags (Suc k) t =
     (case matchBrTag t of None \<Rightarrow> False | Some rest \<Rightarrow> rest = [] \<or> brTags k rest)"

definition allBrTags :: "string \<Rightarrow> bool" where
  "allBrTags t = brTags (length t) t"

fun stripTrailingBr :: "string \<Rightarrow> string" where
  "stripTrailingBr [] = []"
| "stripTrailingBr (c # cs) = (if allBrTags (c # cs) then [] else c # stripTrailingBr cs)"

text \<open>
  Two properties of a string, for stating what \<open>parseEmailBody\<close> achieves: it contains a CR LF
  pair; some non-empty suffix of it consists of line-break tags only.
\<close>

fun hasCRLF :: "string \<Rightarrow> bool" where
  "hasCRLF (c # d # cs) = ((c = CHR 0x0D \<and> d = CHR 0x0A) \<or> hasCRLF (d # cs))"
| "hasCRLF cs = False"

fun endsWithBrTags :: "string \<Rightarrow> bool" where
  "endsWithBrTags [] = False"
| "endsWithBrTags (c # cs) = (allBrTags (c # cs) \<or> endsWithBrTags cs)"

text \<open>The body handed to the DOM parser: \<open>None\<close> when the email has none.\<close>

definition parsedEmailBody :: "parsed_mail \<Rightarrow> string option" where
  "parsedEmailBody parsedEmail =
     (case pm_html parsedEmail of
        None \<Rightarrow>
          map_option replaceCRLF
            (case pm_textAsHtml parsedEmail of Some t \<Rightarrow> Some t | None \<Rightarrow> pm_text parsedEmail)
      | Some html \<Rightarrow> Some html)"

definition parseEmailBody :: "env \<Rightarrow> parsed_mail \<Rightarrow> string" where
  "parseEmailBody en parsedEmail =
     (if \<not> truthy (parsedEmailBody parsedEmail) then []
      else (let emailBody = orElse (parsedEmailBody parsedEmail) [];
                content = (case bodyInnerHTML en emailBody of Some inner \<Rightarrow> inner
                           | None \<Rightarrow> emailBody)
            in normalizeNFKD en (stripTrailingBr content)))"

definition getParsedEmailInfo :: "env \<Rightarrow> parsed_mail \<Rightarrow> error + (parsed_mailbox \<times> string)" where
  "getParsedEmailInfo en parsedEmail =
     (case parseEmailAddress en (orElse (pm_from parsedEmail) []) of
        None \<Rightarrow> Inl (NonRetriableError ''Value is undefined'')
      | Some parsedEmailFrom \<Rightarrow> Inr (parsedEmailFrom, parseEmailBody en parsedEmail))"

text \<open>An entry of \<open>results\<close>.\<close>

record result_entry =
  r_message :: string
  responded :: "bool option"
  isAutomatedResponseOrThankYou :: "bool option"
  r_gmailMessageId :: "string option"
  r_gmailThreadId :: "string option"
  r_messageId :: "nat option"
  conversationSlug :: "string option"

definition skipped :: "string \<Rightarrow> string option \<Rightarrow> string option \<Rightarrow> result_entry" where
  "skipped txt gmailMessageId' gmailThreadId' =
     \<lparr>r_message = txt, responded = None, isAutomatedResponseOrThankYou = None,
      r_gmailMessageId = gmailMessageId', r_gmailThreadId = gmailThreadId',
      r_messageId = None, conversationSlug = None\<rparr>"

definition autoRespondMode :: "mailbox \<Rightarrow> auto_respond option" where
  "autoRespondMode mailbox =
     (case mailbox_preferences mailbox of None \<Rightarrow> None | Some p \<Rightarrow> autoRespondEmailToChat p)"

text \<open>Lines 277-280: the rules that ignore a message without asking the classification.\<close>

definition cheapIgnore ::
  "env \<Rightarrow> basic_user_profile option \<Rightarrow> bool \<Rightarrow> string list \<Rightarrow> string \<Rightarrow> bool" where
  "cheapIgnore en staffUser isFirstMessage labels fromAddress =
     ((staffUser \<noteq> None \<and> \<not> isFirstMessage) \<or>
      (\<exists>i \<in> set labels. i \<in> set IGNORED_GMAIL_CATEGORIES) \<or>
      matchesTransactionalEmailAddress en fromAddress)"

text \<open>Lines 277-286: the cheap rules, and the classification only when none of them ignores.\<close>

definition decideShouldIgnore ::
  "env \<Rightarrow> mailbox \<Rightarrow> basic_user_profile option \<Rightarrow> bool \<Rightarrow> string list \<Rightarrow> string \<Rightarrow> string \<Rightarrow>
   db \<Rightarrow> db \<times> bool \<times> bool option" where
  "decideShouldIgnore en mailbox staffUser isFirstMessage labels fromAddress cleanedUpTxt s =
     (let shouldIgnore = cheapIgnore en staffUser isFirstMessage labels fromAddress
      in if \<not> shouldIgnore
         then (let (s1, isAutomated) = isThankYouOrAutoResponse en mailbox cleanedUpTxt s
               in (s1, isAutomated, Some isAutomated))
         else (s, shouldIgnore, None))"

definition summaryOf :: "conversation \<Rightarrow> conversation_summary" where
  "summaryOf c = \<lparr>c_id = c_id c, slug = slug c, c_status = c_status c, assignedToAI = assignedToAI c\<rparr>"

text \<open>Lines 288-311: the closure \<open>createNewConversation\<close>.\<close>

definition newConversationRow ::
  "env \<Rightarrow> mailbox \<Rightarrow> parsed_mailbox \<Rightarrow> parsed_mail \<Rightarrow> bool \<Rightarrow> db \<Rightarrow> conversation" where
  "newConversationRow en mailbox parsedEmailFrom parsedEmail shouldIgnore s =
     (let i = freshId (map c_id (conversations s))
      in \<lparr>c_id = i,
          slug = generateSlug en i,
          c_status = (if shouldIgnore then Closed else Open),
          assignedToAI = (autoRespondMode mailbox \<noteq> None),
          c_emailFrom = Some (address parsedEmailFrom),
          emailFromName = name parsedEmailFrom,
          subject = pm_subject parsedEmail,
          closedAt = (if shouldIgnore then Some (clock s) else None),
          assignedToId = None,
          lastMessageAt = None,
          lastUserEmailCreatedAt = None,
          lastReadAt = None,
          updatedAt = clock s\<rparr>)"

definition createNewConversation ::
  "env \<Rightarrow> mailbox \<Rightarrow> parsed_mailbox \<Rightarrow> parsed_mail \<Rightarrow> bool \<Rightarrow> db \<Rightarrow> db \<times> conversation_summary" where
  "createNewConversation en mailbox parsedEmailFrom parsedEmail shouldIgnore s =
     (let row = newConversationRow en mailbox parsedEmailFrom parsedEmail shouldIgnore s
      in (s\<lparr>conversations := conversations s @ [row]\<rparr>, summaryOf row))"

text \<open>
  \<open>findFirst\<close> on the thread id ordered by \<open>createdAt\<close> descending: a row with the latest
  \<open>createdAt\<close> (the earliest stored one among equals, an order the query leaves open).
\<close>

definition newer ::
  "conversation_message \<Rightarrow> conversation_message option \<Rightarrow> conversation_message option" where
  "newer m best =
     (case best of None \<Rightarrow> Some m
      | Some b \<Rightarrow> if createdAt b < createdAt m then Some m else Some b)"

definition latest :: "conversation_message list \<Rightarrow> conversation_message option" where
  "latest ms = fold newer ms None"

definition previousEmail :: "string \<Rightarrow> db \<Rightarrow> conversation_message option" where
  "previousEmail gmailThreadId' s =
     latest (filter (\<lambda>m. gmailThreadId m = Some gmailThreadId') (conversationMessages s))"

text \<open>Lines 313-334: the conversation the message attaches to.\<close>

definition resolveConversation ::
  "env \<Rightarrow> mailbox \<Rightarrow> parsed_mailbox \<Rightarrow> parsed_mail \<Rightarrow> bool \<Rightarrow> string \<Rightarrow> string \<Rightarrow> db \<Rightarrow>
   db \<times> conversation_summary" where
  "resolveConversation en mailbox parsedEmailFrom parsedEmail shouldIgnore gmailMessageId'
       gmailThreadId' s =
     (if isNewThread gmailMessageId' gmailThreadId'
      then createNewConversation en mailbox parsedEmailFrom parsedEmail shouldIgnore s
      else (case previousEmail gmailThreadId' s of
              None \<Rightarrow> createNewConversation en mailbox parsedEmailFrom parsedEmail shouldIgnore s
            | Some m \<Rightarrow>
                (case findConversation (conversationId m) s of
                   None \<Rightarrow> createNewConversation en mailbox parsedEmailFrom parsedEmail shouldIgnore s
                 | Some c \<Rightarrow> (s, summaryOf c))))"

definition openUpdate :: update_options where
  "openUpdate =
     \<lparr>upd_set = noUpdate\<lparr>set_status := Some Open\<rparr>, upd_byUserId = None, upd_message = None,
      skipRealtimeEvents = False\<rparr>"

text \<open>Lines 349-351: the condition under which the conversation is reopened.\<close>

definition shouldReopen :: "mailbox \<Rightarrow> conversation_summary \<Rightarrow> bool \<Rightarrow> bool" where
  "shouldReopen mailbox conversation shouldIgnore =
     (c_status conversation = Closed \<and>
      (\<not> assignedToAI conversation \<or> autoRespondMode mailbox = Some RespondDraft) \<and>
      \<not> shouldIgnore)"

text \<open>Lines 348-368: the reopening, the auto-response event and the result entry.\<close>

definition completeIngestion ::
  "mailbox \<Rightarrow> conversation_summary \<Rightarrow> conversation_message \<Rightarrow> bool \<Rightarrow> bool option \<Rightarrow>
   string \<Rightarrow> string \<Rightarrow> db \<Rightarrow> db \<times> result_entry" where
  "completeIngestion mailbox conversation newEmail shouldIgnore isAutomated gmailMessageId'
       gmailThreadId' s =
     (let s1 = (if shouldReopen mailbox conversation shouldIgnore
                then fst (updateConversation (c_id conversation) openUpdate s)
                else s);
          s2 = (if \<not> shouldIgnore
                then triggerEvent ConversationsAutoResponseCreate (MessageIdData (m_id newEmail)) None s1
                else s1)
      in (s2,
          \<lparr>r_message = ''Created message '' @ digitsOf (m_id newEmail),
           responded = Some (\<not> shouldIgnore),
           isAutomatedResponseOrThankYou = isAutomated,
           r_gmailMessageId = Some gmailMessageId',
           r_gmailThreadId = Some gmailThreadId',
           r_messageId = Some (m_id newEmail),
           conversationSlug = Some (slug conversation)\<rparr>))"

text \<open>
  Lines 269-368: what the \<open>try\<close> does with a parsed email that the mailbox did not send
  itself; \<open>Inl\<close> is the exception it throws.
\<close>

definition ingestParsed ::
  "env \<Rightarrow> gmail_support_email \<Rightarrow> mailbox \<Rightarrow> string \<Rightarrow> string \<Rightarrow> string list \<Rightarrow>
   parsed_mail \<Rightarrow> parsed_mailbox \<Rightarrow> string \<Rightarrow> db \<Rightarrow> db \<times> (error + result_entry)" where
  "ingestParsed en gmailSupportEmail mailbox gmailMessageId' gmailThreadId' labels parsedEmail
       parsedEmailFrom emailBody s =
     (let (processedHtml, fileSlugs) = extractAndUploadInlineImages en emailBody;
          cleanedUpTxt =
            htmlToText en
              (if isNewThread gmailMessageId' gmailThreadId' then processedHtml
               else extractQuotations en processedHtml);
          staffUser = getBasicProfileByEmail en (address parsedEmailFrom);
          isFirstMessage = isNewThread gmailMessageId' gmailThreadId';
          (s1, shouldIgnore, isAutomated) =
            decideShouldIgnore en mailbox staffUser isFirstMessage labels
              (address parsedEmailFrom) cleanedUpTxt s;
          (s2, conversation) =
            resolveConversation en mailbox parsedEmailFrom parsedEmail shouldIgnore
              gmailMessageId' gmailThreadId' s1;
          (s3, created) =
            createMessageAndProcessAttachments en gmailSupportEmail parsedEmail
              parsedEmailFrom processedHtml cleanedUpTxt gmailMessageId' gmailThreadId'
              conversation staffUser s2
      in case created of
           Inl e \<Rightarrow> (s3, Inl e)
         | Inr newEmail \<Rightarrow>
             (let (s4, entry) =
                    completeIngestion mailbox conversation newEmail shouldIgnore
                      isAutomated gmailMessageId' gmailThreadId' s3
              in (s4, Inr entry)))"

text \<open>Lines 253-368: the body of the \<open>try\<close>; \<open>Inl\<close> is the exception it throws.\<close>

definition ingestMessage ::
  "env \<Rightarrow> gmail_support_email \<Rightarrow> mailbox \<Rightarrow> string \<Rightarrow> string \<Rightarrow> string list \<Rightarrow> db \<Rightarrow>
   db \<times> (error + result_entry)" where
  "ingestMessage en gmailSupportEmail mailbox gmailMessageId' gmailThreadId' labels s =
     (case getMessageById en gmailMessageId' of
        Inl e \<Rightarrow> (s, Inl e)
      | Inr parsedEmail \<Rightarrow>
          (case getParsedEmailInfo en parsedEmail of
             Inl e \<Rightarrow> (s, Inl e)
           | Inr (parsedEmailFrom, emailBody) \<Rightarrow>
               if address parsedEmailFrom = email gmailSupportEmail
               then (s, Inr (skipped (''Skipped - message '' @ gmailMessageId' @ '' sent from mailbox'')
                               (Some gmailMessageId') (Some gmailThreadId')))
               else ingestParsed en gmailSupportEmail mailbox gmailMessageId' gmailThreadId' labels
                      parsedEmail parsedEmailFrom emailBody s))"

definition existingEmail :: "string \<Rightarrow> db \<Rightarrow> conversation_message option" where
  "existingEmail gmailMessageId' s =
     find (\<lambda>m. gmailMessageId m = Some gmailMessageId') (conversationMessages s)"

text \<open>
  The destructured element of \<open>messagesAdded\<close>: \<open>message?.id\<close>, \<open>message?.threadId\<close>,
  \<open>message.labelIds ?? []\<close>, the test \<open>message?.id && message.threadId\<close> and the two ids
  as strings.
\<close>

definition idOf :: "gmail_message option \<Rightarrow> string option" where
  "idOf msg = (case msg of None \<Rightarrow> None | Some m \<Rightarrow> gm_id m)"

definition threadIdOf :: "gmail_message option \<Rightarrow> string option" where
  "threadIdOf msg = (case msg of None \<Rightarrow> None | Some m \<Rightarrow> threadId m)"

definition labelIdsOf :: "gmail_message option \<Rightarrow> string list" where
  "labelIdsOf msg = orElse (case msg of None \<Rightarrow> None | Some m \<Rightarrow> labelIds m) []"

definition hasIds :: "gmail_message option \<Rightarrow> bool" where
  "hasIds msg = (truthy (idOf msg) \<and> truthy (threadIdOf msg))"

definition gidOf :: "gmail_message option \<Rightarrow> string" where
  "gidOf msg = orElse (idOf msg) []"

definition tidOf :: "gmail_message option \<Rightarrow> string" where
  "tidOf msg = orElse (threadIdOf msg) []"

text \<open>The entry for a message whose processing threw (line 371).\<close>

definition errorEntry :: "string \<Rightarrow> string \<Rightarrow> error \<Rightarrow> result_entry" where
  "errorEntry gmailMessageId' gmailThreadId' e =
     skipped (''Error processing message '' @ gmailMessageId' @ '': '' @ errorToString e)
       (Some gmailMessageId') (Some gmailThreadId')"

text \<open>The \<open>catch\<close> of the loop body (lines 369-373), applied to what the \<open>try\<close> did.\<close>

definition catchIngestion ::
  "env \<Rightarrow> string \<Rightarrow> string \<Rightarrow> db \<times> (error + result_entry) \<Rightarrow> db \<times> (error + result_entry)" where
  "catchIngestion en gmailMessageId' gmailThreadId' tried =
     (case tried of
        (s1, Inr entry) \<Rightarrow> (s1, Inr entry)
      | (s1, Inl e) \<Rightarrow>
          (let (s2, thrown) = captureExceptionAndThrowIfDevelopment en e s1
           in case thrown of
                Some x \<Rightarrow> (s2, Inl x)
              | None \<Rightarrow> (s2, Inr (errorEntry gmailMessageId' gmailThreadId' e))))"


text \<open>The entry for a message that is already stored (line 248).\<close>

definition alreadyExists :: "string \<Rightarrow> string \<Rightarrow> result_entry" where
  "alreadyExists gmailMessageId' gmailThreadId' =
     skipped (''Skipped - message '' @ gmailMessageId' @ '' already exists'')
       (Some gmailMessageId') (Some gmailThreadId')"

text \<open>
  Lines 230-374: one turn of the loop over \<open>messagesAdded\<close>. \<open>Inr\<close> is the entry pushed to
  \<open>results\<close>; \<open>Inl\<close> is an exception that the \<open>catch\<close> threw again.
\<close>

definition processMessage ::
  "env \<Rightarrow> gmail_support_email \<Rightarrow> mailbox \<Rightarrow> gmail_message option \<Rightarrow> db \<Rightarrow>
   db \<times> (error + result_entry)" where
  "processMessage en gmailSupportEmail mailbox msg s =
     (if \<not> hasIds msg
      then (s, Inr (skipped ''Skipped - missing message ID or thread ID'' (idOf msg) (threadIdOf msg)))
      else if existingEmail (gidOf msg) s \<noteq> None
      then (s, Inr (alreadyExists (gidOf msg) (tidOf msg)))
      else catchIngestion en (gidOf msg) (tidOf msg)
             (ingestMessage en gmailSupportEmail mailbox (gidOf msg) (tidOf msg) (labelIdsOf msg) s))"

text \<open>The stored messages with a given Gmail message id.\<close>

definition persisted :: "string \<Rightarrow> db \<Rightarrow> conversation_message list" where
  "persisted gmailMessageId' s =
     filter (\<lambda>m. gmailMessageId m = Some gmailMessageId') (conversationMessages s)"

text \<open>The loop: the entries in order, or the exception that ended it.\<close>

fun processMessages ::
  "env \<Rightarrow> gmail_support_email \<Rightarrow> mailbox \<Rightarrow> gmail_message option list \<Rightarrow> db \<Rightarrow>
   db \<times> (error + result_entry list)" where
  "processMessages en gmailSupportEmail mailbox [] s = (s, Inr [])"
| "processMessages en gmailSupportEmail mailbox (msg # rest) s =
     (case processMessage en gmailSupportEmail mailbox msg s of
        (s1, Inl e) \<Rightarrow> (s1, Inl e)
      | (s1, Inr entry) \<Rightarrow>
          (case processMessages en gmailSupportEmail mailbox rest s1 of
             (s2, Inl e) \<Rightarrow> (s2, Inl e)
           | (s2, Inr entries) \<Rightarrow> (s2, Inr (entry # entries))))"

text \<open>
  Lines 376-379: \<open>update(gmailSupportEmails).set({ historyId }).where(eq(id, ...))\<close> on the
  rows of the table.
\<close>

definition cursorSet :: "gmail_support_email \<Rightarrow> nat \<Rightarrow> gmail_support_email list \<Rightarrow> gmail_support_email list" where
  "cursorSet gse h rows =
     map (\<lambda>g. if gse_id g = gse_id gse then g\<lparr>historyId := Some h\<rparr> else g) rows"

record webhook_response =
  response_data :: "webhook_data option"
  response_messages :: nat
  results :: "result_entry list"

text \<open>
  \<open>handleGmailWebhookEvent\<close> from the loop on: the request is authorized, the support
  email and its mailbox are found and \<open>messagesAdded\<close> is read from the history before. The
  history id is written after the loop.
\<close>

definition handleGmailWebhookEvent ::
  "env \<Rightarrow> gmail_support_email \<Rightarrow> mailbox \<Rightarrow> webhook_data \<Rightarrow> gmail_message option list \<Rightarrow> db \<Rightarrow>
   db \<times> (error + webhook_response)" where
  "handleGmailWebhookEvent en gmailSupportEmail mailbox data messagesAdded s =
     (case processMessages en gmailSupportEmail mailbox messagesAdded s of
        (s1, Inl e) \<Rightarrow> (s1, Inl e)
      | (s1, Inr entries) \<Rightarrow>
          (s1\<lparr>gmailSupportEmails :=
                cursorSet gmailSupportEmail (wd_historyId data) (gmailSupportEmails s1)\<rparr>,
           Inr \<lparr>response_data = (if NODE_ENV en = Development then Some data else None),
                response_messages = length messagesAdded,
                results = entries\<rparr>))"

text \<open>
  What "a brand-new conversation is created" means for a step from \<open>s\<close> to \<open>s'\<close> that
  returns \<open>conv\<close>: it is the result of \<open>createNewConversation\<close>, a row is appended for it, and
  its id is the id of no conversation of \<open>s\<close>.
\<close>

definition brandNew ::
  "env \<Rightarrow> mailbox \<Rightarrow> parsed_mailbox \<Rightarrow> parsed_mail \<Rightarrow> bool \<Rightarrow> db \<Rightarrow> db \<Rightarrow> conversation_summary \<Rightarrow> bool" where
  "brandNew en mailbox sender mail ig s s' conv =
     ((s', conv) = createNewConversation en mailbox sender mail ig s \<and>
      c_id conv \<notin> c_id ` set (conversations s) \<and>
      (\<exists>row. conversations s' = conversations s @ [row] \<and> conv = summaryOf row))"

text \<open>The one job of \<open>conversations/auto-response.create\<close> for a message.\<close>

definition autoResponseJob :: "nat \<Rightarrow> job" where
  "autoResponseJob i =
     \<lparr>job_event = ConversationsAutoResponseCreate, job_name = ''handleAutoResponse'',
      job_data = MessageIdData i, job_delay = 0\<rparr>"

text \<open>
  The cleaned-up text and the ignore decision that \<open>ingestParsed\<close> computes, as functions of
  its arguments.
\<close>

definition cleanedOf :: "env \<Rightarrow> string \<Rightarrow> string \<Rightarrow> string \<Rightarrow> string" where
  "cleanedOf en gid tid emailBody =
     htmlToText en (if isNewThread gid tid then fst (extractAndUploadInlineImages en emailBody)
                    else extractQuotations en (fst (extractAndUploadInlineImages en emailBody)))"

definition decisionOf ::
  "env \<Rightarrow> mailbox \<Rightarrow> string \<Rightarrow> string \<Rightarrow> string list \<Rightarrow> parsed_mailbox \<Rightarrow> string \<Rightarrow> db \<Rightarrow>
   db \<times> bool \<times> bool option" where
  "decisionOf en mailbox gid tid labels sender emailBody s =
     decideShouldIgnore en mailbox (getBasicProfileByEmail en (address sender)) (isNewThread gid tid)
       labels (address sender) (cleanedOf en gid tid emailBody) s"

text \<open>The message that an ingestion inserts.\<close>

definition ingestedMessage ::
  "env \<Rightarrow> mailbox \<Rightarrow> string \<Rightarrow> string \<Rightarrow> string list \<Rightarrow> parsed_mail \<Rightarrow> parsed_mailbox \<Rightarrow> string \<Rightarrow>
   db \<Rightarrow> conversation_message" where
  "ingestedMessage en mailbox gid tid labels mail sender emailBody s =
     (let d = decisionOf en mailbox gid tid labels sender emailBody s;
          r = resolveConversation en mailbox sender mail (fst (snd d)) gid tid (fst d)
      in insertedMessage
           (newEmailValues en mail sender (fst (extractAndUploadInlineImages en emailBody))
              (cleanedOf en gid tid emailBody) gid tid (c_id (snd r))
              (getBasicProfileByEmail en (address sender)) (clock (fst r)))
           (fst r))"

text \<open>
  The state in which the loop reaches the message at position \<open>i\<close> when every turn before
  it has pushed its entry: what the turns for the messages before it leave, one after the
  other.
\<close>

definition stateAt ::
  "env \<Rightarrow> gmail_support_email \<Rightarrow> mailbox \<Rightarrow> gmail_message option list \<Rightarrow> db \<Rightarrow> nat \<Rightarrow> db" where
  "stateAt en gmailSupportEmail mailbox msgs s i =
     fold (\<lambda>msg st. fst (processMessage en gmailSupportEmail mailbox msg st)) (take i msgs) s"

section \<open>Observing the job queue\<close>

text \<open>The jobs that a step from \<open>s\<close> to \<open>s'\<close> added to the queue.\<close>

definition enqueued :: "db \<Rightarrow> db \<Rightarrow> job list" where
  "enqueued s s' = drop (length (jobs s)) (jobs s')"

definition payloadsOf :: "pending_event \<Rightarrow> job list" where
  "payloadsOf e =
     map (\<lambda>j. \<lparr>job_event = pe_name e, job_name = j, job_data = pe_data e,
               job_delay = orElse (pe_sleepSeconds e) 0\<rparr>) (eventJobs (pe_name e))"

section \<open>Example values\<close>

definition exampleEnv :: env where
  "exampleEnv =
     \<lparr>NODE_ENV = Production,
      throwInThisEnvironment = False,
      EMAIL_UNDO_COUNTDOWN_SECONDS = 15,
      getMessageById = (\<lambda>i. Inl (RequestFailed ''Not Found'')),
      parseEmailAddress = (\<lambda>t. if t = [] then None else Some \<lparr>address = t, name = None\<rparr>),
      extractAndUploadInlineImages = (\<lambda>h. (h, [])),
      htmlToText = (\<lambda>h. h),
      extractQuotations = (\<lambda>h. h),
      getBasicProfileByEmail =
        (\<lambda>a. if a = ''agent@example.com'' then Some \<lparr>user_id = ''u1'', user_email = a\<rparr> else None),
      matchesTransactionalEmailAddress = (\<lambda>a. False),
      runAIQuery = (\<lambda>m t. Inr ''No''),
      extractAddresses = (\<lambda>t. [t]),
      bodyInnerHTML = (\<lambda>h. Some h),
      normalizeNFKD = (\<lambda>h. h),
      generateSlug = (\<lambda>i. ''c'' @ digitsOf i)\<rparr>"

definition emptyDb :: db where
  "emptyDb =
     \<lparr>conversations = [], conversationMessages = [], conversationEvents = [],
      gmailSupportEmails = [], jobs = [], published = [], captured = [], clock = 1000\<rparr>"

definition exampleReply :: new_conversation_message where
  "exampleReply =
     \<lparr>n_conversationId = 1, n_role = Staff, n_status = Some Queueing, n_userId = Some ''u1'',
      n_gmailMessageId = None, n_gmailThreadId = None, n_messageId = None, n_references = None,
      n_emailFrom = None, n_emailTo = None, n_emailCc = None, n_emailBcc = None,
      n_body = Some ''Hello'', n_cleanedUpText = None, n_responseToId = None,
      n_isPinned = None, n_createdAt = None\<rparr>"

definition timeoutEnv :: env where
  "timeoutEnv = exampleEnv\<lparr>runAIQuery := (\<lambda>m t. Inl (AIError ''timeout''))\<rparr>"

definition thanksEnv :: env where
  "thanksEnv =
     exampleEnv\<lparr>runAIQuery := (\<lambda>m t. Inr [CHR '' '', CHR ''Y'', CHR ''e'', CHR ''S'', CHR 0x0A])\<rparr>"

definition exampleMailbox :: mailbox where
  "exampleMailbox =
     \<lparr>mailbox_id = 1,
      mailbox_preferences = Some \<lparr>autoRespondEmailToChat = Some RespondReply\<rparr>\<rparr>"

definition exampleSender :: parsed_mailbox where
  "exampleSender = \<lparr>address = ''customer@example.com'', name = None\<rparr>"

definition exampleMail :: parsed_mail where
  "exampleMail =
     \<lparr>pm_from = Some ''customer@example.com'', pm_to = Some (One ''support@example.com''),
      pm_cc = None, pm_bcc = None, pm_subject = Some ''Order'', pm_html = Some ''<p>Can you help?</p>'',
      pm_text = None, pm_textAsHtml = None, pm_messageId = Some ''<1@example.com>'',
      pm_references = None, pm_date = Some 900, pm_attachments = []\<rparr>"

definition conversationRow :: "nat \<Rightarrow> conversation_status \<Rightarrow> bool \<Rightarrow> string option \<Rightarrow> conversation" where
  "conversationRow i st ai assignee =
     \<lparr>c_id = i, slug = ''c'' @ digitsOf i, c_status = st, assignedToAI = ai,
      c_emailFrom = Some ''customer@example.com'', emailFromName = None, subject = Some ''Order'',
      closedAt = (if st = Closed then Some 500 else None), assignedToId = assignee,
      lastMessageAt = None, lastUserEmailCreatedAt = None, lastReadAt = None, updatedAt = 500\<rparr>"

definition messageRow :: "nat \<Rightarrow> nat \<Rightarrow> string \<Rightarrow> string \<Rightarrow> nat \<Rightarrow> conversation_message" where
  "messageRow i c gid tid t =
     \<lparr>m_id = i, conversationId = c, role = User, status = None, userId = None,
      gmailMessageId = Some gid, gmailThreadId = Some tid, messageId = None, references = None,
      emailFrom = Some ''customer@example.com'', emailTo = None, emailCc = None, emailBcc = None,
      body = Some ''Hello'', cleanedUpText = Some ''Hello'', responseToId = None, isPinned = False,
      createdAt = t\<rparr>"

definition threadDb :: db where
  "threadDb =
     emptyDb\<lparr>conversations := [conversationRow 1 Closed False None, conversationRow 2 Closed True None],
             conversationMessages := [messageRow 1 1 ''t1'' ''t1'' 10, messageRow 2 2 ''m2'' ''t1'' 20]\<rparr>"

definition plainMailbox :: mailbox where
  "plainMailbox = \<lparr>mailbox_id = 2, mailbox_preferences = None\<rparr>"

definition supportEmail :: gmail_support_email where
  "supportEmail = \<lparr>gse_id = 1, email = ''support@example.com'', historyId = Some 40\<rparr>"

definition ccMail :: parsed_mail where
  "ccMail = exampleMail\<lparr>pm_cc := Some (Many [''Support <Support@Example.com>'', ''other@example.com'',
                                              ''agent@example.com''])\<rparr>"

definition ccEnv :: env where
  "ccEnv = exampleEnv\<lparr>extractAddresses :=
     (\<lambda>t. [''Support@Example.com'', ''other@example.com'', ''agent@example.com''])\<rparr>"

definition noStaffCcEnv :: env where
  "noStaffCcEnv = exampleEnv\<lparr>extractAddresses := (\<lambda>t. [''user2@example.com'', ''support@example.com''])\<rparr>"

definition aiConversation :: conversation_summary where
  "aiConversation = summaryOf (conversationRow 2 Closed True None)"

definition draftMailbox :: mailbox where
  "draftMailbox =
     \<lparr>mailbox_id = 3, mailbox_preferences = Some \<lparr>autoRespondEmailToChat = Some RespondDraft\<rparr>\<rparr>"

definition reopenDb :: db where
  "reopenDb =
     threadDb\<lparr>conversationMessages := conversationMessages threadDb @ [messageRow 3 1 ''t5'' ''t5'' 30]\<rparr>"

definition inboxEnv :: env where
  "inboxEnv =
     exampleEnv\<lparr>getMessageById :=
       (\<lambda>i. if i = ''gone'' then Inl (RequestFailed ''Not Found'') else Inr exampleMail)\<rparr>"

definition firstMessage :: "gmail_message option" where
  "firstMessage = Some \<lparr>gm_id = Some ''m1'', threadId = Some ''m1'', labelIds = Some [''INBOX'']\<rparr>"

definition redelivered :: "gmail_message option" where
  "redelivered = Some \<lparr>gm_id = Some ''m2'', threadId = Some ''t1'', labelIds = None\<rparr>"

definition unthreaded :: "gmail_message option" where
  "unthreaded = Some \<lparr>gm_id = Some ''m2'', threadId = None, labelIds = None\<rparr>"

definition goneMessage :: "gmail_message option" where
  "goneMessage = Some \<lparr>gm_id = Some ''gone'', threadId = Some ''gone'', labelIds = None\<rparr>"

definition thanksInboxEnv :: env where
  "thanksInboxEnv = inboxEnv\<lparr>runAIQuery := (\<lambda>m t. Inr ''Yes'')\<rparr>"

definition devEnv :: env where
  "devEnv = inboxEnv\<lparr>NODE_ENV := Development, throwInThisEnvironment := True\<rparr>"

definition exampleData :: webhook_data where
  "exampleData = \<lparr>emailAddress = ''support@example.com'', wd_historyId = 50\<rparr>"

definition cursorDb :: db where
  "cursorDb = emptyDb\<lparr>gmailSupportEmails := [supportEmail]\<rparr>"

definition plainMail :: parsed_mail where
  "plainMail =
     exampleMail\<lparr>pm_html := None, pm_textAsHtml := None,
                  pm_text := Some (''Hi'' @ [CHR 0x0D, CHR 0x0A] @ ''there<br/><BR >'')\<rparr>"

definition lfMail :: parsed_mail where
  "lfMail =
     exampleMail\<lparr>pm_html := None, pm_textAsHtml := None,
                  pm_text := Some [CHR ''a'', CHR 0x0A, CHR ''b'']\<rparr>"

definition crlfMail :: parsed_mail where
  "crlfMail =
     exampleMail\<lparr>pm_html := None, pm_textAsHtml := None,
                  pm_text := Some [CHR ''a'', CHR 0x0D, CHR 0x0A, CHR ''b'']\<rparr>"

definition noSenderMail :: parsed_mail where
  "noSenderMail = exampleMail\<lparr>pm_from := None\<rparr>"

definition noSenderMessage :: "gmail_message option" where
  "noSenderMessage = Some \<lparr>gm_id = Some ''nofrom'', threadId = Some ''nofrom'', labelIds = None\<rparr>"

definition batchEnv :: env where
  "batchEnv =
     exampleEnv\<lparr>getMessageById :=
       (\<lambda>i. if i = ''gone'' then Inl (RequestFailed ''Not Found'')
            else if i = ''nofrom'' then Inr noSenderMail
            else Inr exampleMail)\<rparr>"

definition devBatchEnv :: env where
  "devBatchEnv = batchEnv\<lparr>NODE_ENV := Development, throwInThisEnvironment := True\<rparr>"

section \<open>Message creation: which events are sent\<close>

lemma jobs_triggerEvent:
  "jobs (triggerEvent ev d sl s) = jobs s @
     map (\<lambda>j. \<lparr>job_event = ev, job_name = j, job_data = d,
               job_delay = (case sl of None \<Rightarrow> 0 | Some n \<Rightarrow> n)\<rparr>) (eventJobs ev)"
  by (simp add: triggerEvent_def)

lemma jobs_sendEvent: "jobs (sendEvent e s) = jobs s @ payloadsOf e"
  by (auto simp: sendEvent_def jobs_triggerEvent payloadsOf_def orElse_def split: option.splits)

lemma jobs_fold_sendEvent: "jobs (fold sendEvent es s) = jobs s @ concat (map payloadsOf es)"
  by (induction es arbitrary: s) (simp_all add: jobs_sendEvent)

lemma c_status_applyUpdate_None:
  "set_status u = None \<Longrightarrow> c_status (applyUpdate u t c) = c_status c"
  by (simp add: applyUpdate_def orElse_def)

lemma jobs_updateConversation_no_status:
  "set_status (upd_set opts) = None \<Longrightarrow> jobs (fst (updateConversation i opts s)) = jobs s"
  by (simp add: updateConversation_def Let_def c_status_applyUpdate_None split: option.splits)

lemma createConversationMessage_message:
  "snd (createConversationMessage en n s) = insertedMessage n s"
  by (simp add: createConversationMessage_def Let_def case_prod_beta)

lemma createConversationMessage_jobs:
  "jobs (fst (createConversationMessage en n s)) =
     jobs s @ concat (map payloadsOf (eventsToSend en (insertedMessage n s)))"
  by (simp add: createConversationMessage_def Let_def case_prod_beta jobs_fold_sendEvent
      jobs_updateConversation_no_status noUpdate_def touch_def)

lemma enqueued_createConversationMessage:
  "enqueued s (fst (createConversationMessage en n s)) =
     concat (map payloadsOf (eventsToSend en (insertedMessage n s)))"
  by (simp add: enqueued_def createConversationMessage_jobs)

lemma status_insertedMessage: "status (insertedMessage n s) = n_status n"
  by (simp add: insertedMessage_def)

lemma eventJobs_nonempty: "eventJobs e \<noteq> []"
  by (cases e) simp_all

lemma payloadsOf_event:
  "j \<in> set (payloadsOf e) \<Longrightarrow>
     job_event j = pe_name e \<and> job_data j = pe_data e \<and>
     job_delay j = orElse (pe_sleepSeconds e) 0"
  by (auto simp: payloadsOf_def)

lemma payloadsOf_nonempty: "\<exists>j. j \<in> set (payloadsOf e)"
proof -
  obtain x xs where "eventJobs (pe_name e) = x # xs"
    using eventJobs_nonempty[of "pe_name e"] by (cases "eventJobs (pe_name e)") auto
  then show ?thesis by (auto simp: payloadsOf_def)
qed

lemma ex_job_event:
  "(\<exists>j \<in> set (concat (map payloadsOf es)). job_event j = N) \<longleftrightarrow>
   (\<exists>e \<in> set es. pe_name e = N)"
proof
  assume "\<exists>j \<in> set (concat (map payloadsOf es)). job_event j = N"
  then obtain j e where "e \<in> set es" "j \<in> set (payloadsOf e)" "job_event j = N" by auto
  then show "\<exists>e \<in> set es. pe_name e = N" using payloadsOf_event[of j e] by auto
next
  assume "\<exists>e \<in> set es. pe_name e = N"
  then obtain e where e: "e \<in> set es" "pe_name e = N" by auto
  obtain j where "j \<in> set (payloadsOf e)" using payloadsOf_nonempty by blast
  then show "\<exists>j \<in> set (concat (map payloadsOf es)). job_event j = N"
    using e payloadsOf_event[of j e] by auto
qed

lemma names_eventsToSend:
  "map pe_name (eventsToSend en m) =
     (if status m \<noteq> Some Draft
      then ConversationsMessageCreated #
           (if truthy (userId m) \<and> (role m = User \<or> role m = Staff)
            then [ConversationsSendFollowerNotification] else [])
      else []) @
     (if status m = Some Queueing then [ConversationsEmailEnqueued] else [])"
  by (auto simp: eventsToSend_def)

lemma ex_pe_name: "(\<exists>e \<in> set es. pe_name e = N) \<longleftrightarrow> N \<in> set (map pe_name es)"
  by auto

lemma eventsToSend_created:
  "(\<exists>e \<in> set (eventsToSend en m). pe_name e = ConversationsMessageCreated) \<longleftrightarrow>
   status m \<noteq> Some Draft"
  unfolding ex_pe_name names_eventsToSend by simp

lemma eventsToSend_enqueued:
  "(\<exists>e \<in> set (eventsToSend en m). pe_name e = ConversationsEmailEnqueued) \<longleftrightarrow>
   status m = Some Queueing"
  unfolding ex_pe_name names_eventsToSend by simp

lemma eventsToSend_data:
  "e \<in> set (eventsToSend en m) \<Longrightarrow>
     (pe_name e = ConversationsMessageCreated \<longrightarrow>
        pe_data e = MessageCreatedData (m_id m) (conversationId m)) \<and>
     (pe_name e = ConversationsEmailEnqueued \<longrightarrow>
        pe_data e = MessageIdData (m_id m) \<and>
        pe_sleepSeconds e = Some (EMAIL_UNDO_COUNTDOWN_SECONDS en))"
  by (auto simp: eventsToSend_def split: if_splits)

text \<open>
  C10. A message created through \<open>createConversationMessage\<close> keeps the status it was given;
  jobs of \<open>conversations/message.created\<close> are enqueued iff that status is not \<open>draft\<close>, and
  jobs of \<open>conversations/email.enqueued\<close> iff it is \<open>queueing\<close>; the former carry the
  message's id, the latter carry it too and are delayed by \<open>EMAIL_UNDO_COUNTDOWN_SECONDS\<close>.
\<close>

theorem createConversationMessage_events:
  assumes "createConversationMessage en n s = (s', message)"
  shows "status message = n_status n \<and>
     ((\<exists>j \<in> set (enqueued s s'). job_event j = ConversationsMessageCreated)
        \<longleftrightarrow> status message \<noteq> Some Draft) \<and>
     ((\<exists>j \<in> set (enqueued s s'). job_event j = ConversationsEmailEnqueued)
        \<longleftrightarrow> status message = Some Queueing) \<and>
     (\<forall>j \<in> set (enqueued s s').
        (job_event j = ConversationsMessageCreated \<longrightarrow>
           job_data j = MessageCreatedData (m_id message) (conversationId message)) \<and>
        (job_event j = ConversationsEmailEnqueued \<longrightarrow>
           job_data j = MessageIdData (m_id message) \<and>
           job_delay j = EMAIL_UNDO_COUNTDOWN_SECONDS en))"
proof -
  have m: "message = insertedMessage n s"
    using assms createConversationMessage_message[of en n s] by simp
  have e: "enqueued s s' = concat (map payloadsOf (eventsToSend en message))"
    using assms enqueued_createConversationMessage[of s en n] m by simp
  have 1: "status message = n_status n" by (simp add: m status_insertedMessage)
  have 2: "(\<exists>j \<in> set (enqueued s s'). job_event j = ConversationsMessageCreated)
        \<longleftrightarrow> status message \<noteq> Some Draft"
    unfolding e ex_job_event eventsToSend_created ..
  have 3: "(\<exists>j \<in> set (enqueued s s'). job_event j = ConversationsEmailEnqueued)
        \<longleftrightarrow> status message = Some Queueing"
    unfolding e ex_job_event eventsToSend_enqueued ..
  have 4: "(job_event j = ConversationsMessageCreated \<longrightarrow>
           job_data j = MessageCreatedData (m_id message) (conversationId message)) \<and>
        (job_event j = ConversationsEmailEnqueued \<longrightarrow>
           job_data j = MessageIdData (m_id message) \<and>
           job_delay j = EMAIL_UNDO_COUNTDOWN_SECONDS en)" if "j \<in> set (enqueued s s')" for j
  proof -
    from that obtain ev where ev: "ev \<in> set (eventsToSend en message)" "j \<in> set (payloadsOf ev)"
      unfolding e by auto
    show ?thesis
      using eventsToSend_data[OF ev(1)] payloadsOf_event[OF ev(2)]
      by (auto simp: orElse_def)
  qed
  show ?thesis using 1 2 3 4 by blast
qed

theorem createConversationMessage_events_witness:
  "status (snd (createConversationMessage exampleEnv exampleReply emptyDb)) = Some Queueing \<and>
   (\<exists>j \<in> set (enqueued emptyDb (fst (createConversationMessage exampleEnv exampleReply emptyDb))).
      job_event j = ConversationsEmailEnqueued \<and> job_delay j = 15) \<and>
   (\<exists>j \<in> set (enqueued emptyDb (fst (createConversationMessage exampleEnv exampleReply emptyDb))).
      job_event j = ConversationsMessageCreated \<and> job_data j = MessageCreatedData 1 1)"
proof -
  let ?r = "createConversationMessage exampleEnv exampleReply emptyDb"
  have h: "?r = (fst ?r, snd ?r)" by simp
  have q: "n_status exampleReply = Some Queueing" by (simp add: exampleReply_def)
  have u: "EMAIL_UNDO_COUNTDOWN_SECONDS exampleEnv = 15" by (simp add: exampleEnv_def)
  have i: "m_id (snd ?r) = 1 \<and> conversationId (snd ?r) = 1"
    by (simp add: createConversationMessage_message insertedMessage_def freshId_def
        emptyDb_def exampleReply_def)
  from createConversationMessage_events[OF h] q u i show ?thesis
    by (metis message_status.distinct(5) option.inject)
qed

section \<open>Fresh keys and the latest message of a thread\<close>

lemma fold_max_ge: "(a::nat) \<le> fold max ids a \<and> (\<forall>x \<in> set ids. x \<le> fold max ids a)"
proof (induction ids arbitrary: a)
  case Nil
  show ?case by simp
next
  case (Cons i ids)
  from Cons[of "max i a"] show ?case by auto
qed

lemma freshId_notin: "freshId ids \<notin> set ids"
proof
  assume "freshId ids \<in> set ids"
  then have "freshId ids \<le> fold max ids 0" using fold_max_ge[of 0 ids] by blast
  then show False by (simp add: freshId_def)
qed

lemma latest_fold: "latest ms = fold newer ms None"
  by (simp add: latest_def)

lemma fold_newer_Some:
  "\<exists>m. fold newer ms (Some b) = Some m \<and> (m = b \<or> m \<in> set ms) \<and>
        createdAt b \<le> createdAt m \<and> (\<forall>x \<in> set ms. createdAt x \<le> createdAt m)"
proof (induction ms arbitrary: b)
  case Nil
  show ?case by simp
next
  case (Cons a ms)
  show ?case
  proof (cases "createdAt b < createdAt a")
    case True
    have step: "fold newer (a # ms) (Some b) = fold newer ms (Some a)"
      using True by (simp add: newer_def)
    from Cons[of a] obtain m where m: "fold newer ms (Some a) = Some m" "m = a \<or> m \<in> set ms"
      "createdAt a \<le> createdAt m" "\<forall>x \<in> set ms. createdAt x \<le> createdAt m" by blast
    have "createdAt b \<le> createdAt m" using True m(3) by simp
    with m show ?thesis unfolding step by auto
  next
    case False
    have step: "fold newer (a # ms) (Some b) = fold newer ms (Some b)"
      using False by (simp add: newer_def)
    from Cons[of b] obtain m where m: "fold newer ms (Some b) = Some m" "m = b \<or> m \<in> set ms"
      "createdAt b \<le> createdAt m" "\<forall>x \<in> set ms. createdAt x \<le> createdAt m" by blast
    have "createdAt a \<le> createdAt m" using False m(3) by simp
    with m show ?thesis unfolding step by auto
  qed
qed

lemma latest_Nil: "latest [] = None"
  by (simp add: latest_def)

lemma latest_Cons:
  "\<exists>m. latest (a # ms) = Some m \<and> m \<in> set (a # ms) \<and> (\<forall>x \<in> set (a # ms). createdAt x \<le> createdAt m)"
proof -
  have "latest (a # ms) = fold newer ms (Some a)" by (simp add: latest_fold newer_def)
  then show ?thesis using fold_newer_Some[of ms a] by auto
qed

lemma latest_None_iff: "latest ms = None \<longleftrightarrow> ms = []"
proof (cases ms)
  case Nil
  then show ?thesis by (simp add: latest_Nil)
next
  case (Cons a list)
  then show ?thesis using latest_Cons[of a list] by auto
qed

lemma latest_Some:
  "latest ms = Some m \<Longrightarrow> m \<in> set ms \<and> (\<forall>x \<in> set ms. createdAt x \<le> createdAt m)"
proof (cases ms)
  case Nil
  assume "latest ms = Some m"
  with Nil show ?thesis by (simp add: latest_Nil)
next
  case (Cons a list)
  assume "latest ms = Some m"
  with Cons show ?thesis using latest_Cons[of a list] by auto
qed

lemma previousEmail_None_iff:
  "previousEmail tid s = None \<longleftrightarrow> (\<forall>m \<in> set (conversationMessages s). gmailThreadId m \<noteq> Some tid)"
  by (auto simp: previousEmail_def latest_None_iff filter_empty_conv)

lemma previousEmail_Some:
  "previousEmail tid s = Some m \<Longrightarrow>
     m \<in> set (conversationMessages s) \<and> gmailThreadId m = Some tid \<and>
     (\<forall>x \<in> set (conversationMessages s). gmailThreadId x = Some tid \<longrightarrow> createdAt x \<le> createdAt m)"
  unfolding previousEmail_def using latest_Some[of "filter (\<lambda>m. gmailThreadId m = Some tid) (conversationMessages s)" m]
  by auto

lemma findConversation_Some: "findConversation i s = Some c \<Longrightarrow> c \<in> set (conversations s) \<and> c_id c = i"
  unfolding findConversation_def by (auto simp: find_Some_iff)

lemma createNewConversation_eq:
  "createNewConversation en mailbox from mail ig s =
     (s\<lparr>conversations := conversations s @ [newConversationRow en mailbox from mail ig s]\<rparr>,
      summaryOf (newConversationRow en mailbox from mail ig s))"
  by (simp add: createNewConversation_def Let_def)

lemma newConversationRow_id:
  "c_id (newConversationRow en mailbox from mail ig s) \<notin> c_id ` set (conversations s)"
  using freshId_notin[of "map c_id (conversations s)"] by (simp add: newConversationRow_def Let_def)

lemma newConversationRow_fields:
  "c_status (newConversationRow en mailbox from mail ig s) = (if ig then Closed else Open)"
  "closedAt (newConversationRow en mailbox from mail ig s) = (if ig then Some (clock s) else None)"
  "assignedToAI (newConversationRow en mailbox from mail ig s) = (autoRespondMode mailbox \<noteq> None)"
  "assignedToId (newConversationRow en mailbox from mail ig s) = None"
  by (simp_all add: newConversationRow_def Let_def)


section \<open>The classification\<close>

lemma of_char_toLowerChar:
  "(of_char (toLowerChar c) :: nat) =
     (let n = (of_char c :: nat)
      in if (65 \<le> n \<and> n \<le> 90) \<or> (192 \<le> n \<and> n \<le> 222 \<and> n \<noteq> 215) then n + 32 else n)"
  by (auto simp: toLowerChar_def Let_def)

lemma isWhiteSpace_toLowerChar: "isWhiteSpace (toLowerChar c) = isWhiteSpace c"
  unfolding isWhiteSpace_def of_char_toLowerChar Let_def by auto

lemma dropWhile_toLowerCase:
  "dropWhile isWhiteSpace (map toLowerChar t) = map toLowerChar (dropWhile isWhiteSpace t)"
  by (induction t) (simp_all add: isWhiteSpace_toLowerChar)

lemma trim_toLowerCase: "trim (toLowerCase t) = toLowerCase (trim t)"
  by (simp add: trim_def trimStart_def toLowerCase_def dropWhile_toLowerCase rev_map)

lemma toLower_yes: "toLowerCase ''yes'' = ''yes''"
  by (simp add: toLowerCase_def toLowerChar_def)

lemma saysYes_code: "(trim (toLowerCase content) = ''yes'') = saysYes content"
  by (simp add: saysYes_def equalsIgnoringCase_def trim_toLowerCase toLower_yes)

lemma isThankYou_ok:
  "runAIQuery en mailbox txt = Inr content \<Longrightarrow>
     isThankYouOrAutoResponse en mailbox txt s = (s, saysYes content)"
  by (simp add: isThankYouOrAutoResponse_def saysYes_code)

lemma isThankYou_fail:
  "runAIQuery en mailbox txt = Inl e \<Longrightarrow>
     isThankYouOrAutoResponse en mailbox txt s = (s\<lparr>captured := captured s @ [e]\<rparr>, False)"
  by (simp add: isThankYouOrAutoResponse_def captureExceptionAndLog_def)

text \<open>
  C4. When the query returns a text, \<open>isThankYouOrAutoResponse\<close> answers whether that text,
  trimmed and compared ignoring case, is \<open>"yes"\<close>, and changes nothing. When the query
  throws, the exception is reported and the answer is \<open>false\<close>; a message that no cheap
  rule ignores is then not ignored.
\<close>

theorem isThankYouOrAutoResponse_fails_open:
  "(runAIQuery en mailbox emailText = Inr content \<longrightarrow>
      isThankYouOrAutoResponse en mailbox emailText s = (s, saysYes content)) \<and>
   (runAIQuery en mailbox emailText = Inl e \<longrightarrow>
      isThankYouOrAutoResponse en mailbox emailText s = (s\<lparr>captured := captured s @ [e]\<rparr>, False) \<and>
      (\<not> cheapIgnore en staffUser isFirst labels fromAddress \<longrightarrow>
         decideShouldIgnore en mailbox staffUser isFirst labels fromAddress emailText s =
           (s\<lparr>captured := captured s @ [e]\<rparr>, False, Some False)))"
  by (simp add: isThankYou_ok isThankYou_fail decideShouldIgnore_def cheapIgnore_def)

lemma saysYes_example: "saysYes [CHR '' '', CHR ''Y'', CHR ''e'', CHR ''S'', CHR 0x0A]"
  by (simp add: saysYes_def equalsIgnoringCase_def trim_def trimStart_def toLowerCase_def
      toLowerChar_def isWhiteSpace_def char_of_eq_iff)

theorem isThankYouOrAutoResponse_fails_open_witness:
  "isThankYouOrAutoResponse thanksEnv exampleMailbox ''Thank you!'' emptyDb = (emptyDb, True) \<and>
   isThankYouOrAutoResponse timeoutEnv exampleMailbox ''Where is my order?'' emptyDb =
     (emptyDb\<lparr>captured := [AIError ''timeout'']\<rparr>, False) \<and>
   decideShouldIgnore timeoutEnv exampleMailbox None True [] ''customer@example.com''
       ''Where is my order?'' emptyDb =
     (emptyDb\<lparr>captured := [AIError ''timeout'']\<rparr>, False, Some False)"
proof -
  have a: "runAIQuery thanksEnv exampleMailbox ''Thank you!'' =
             Inr [CHR '' '', CHR ''Y'', CHR ''e'', CHR ''S'', CHR 0x0A]"
    by (simp add: thanksEnv_def exampleEnv_def)
  have b: "runAIQuery timeoutEnv exampleMailbox ''Where is my order?'' = Inl (AIError ''timeout'')"
    by (simp add: timeoutEnv_def exampleEnv_def)
  have c: "\<not> cheapIgnore timeoutEnv None True [] ''customer@example.com''"
    by (simp add: cheapIgnore_def timeoutEnv_def exampleEnv_def)
  have d: "captured emptyDb = []" by (simp add: emptyDb_def)
  from isThankYouOrAutoResponse_fails_open[where en=thanksEnv and mailbox=exampleMailbox
      and emailText="''Thank you!''" and s=emptyDb] a
  have 1: "isThankYouOrAutoResponse thanksEnv exampleMailbox ''Thank you!'' emptyDb = (emptyDb, True)"
    using saysYes_example by simp
  from isThankYouOrAutoResponse_fails_open[where en=timeoutEnv and mailbox=exampleMailbox
      and emailText="''Where is my order?''" and e="AIError ''timeout''" and staffUser=None
      and isFirst=True and labels="[]" and fromAddress="''customer@example.com''" and s=emptyDb] b c d
  show ?thesis using 1 by simp
qed

section \<open>Resolving the conversation\<close>

lemma threadDb_sel:
  "conversations threadDb = [conversationRow 1 Closed False None, conversationRow 2 Closed True None]"
  "conversationMessages threadDb = [messageRow 1 1 ''t1'' ''t1'' 10, messageRow 2 2 ''m2'' ''t1'' 20]"
  "clock threadDb = 1000"
  by (simp_all add: threadDb_def emptyDb_def)

lemma row_sel:
  "c_id (conversationRow i st ai a) = i" "c_status (conversationRow i st ai a) = st"
  "assignedToAI (conversationRow i st ai a) = ai" "assignedToId (conversationRow i st ai a) = a"
  "conversationId (messageRow j c gid tid t) = c" "gmailThreadId (messageRow j c gid tid t) = Some tid"
  "gmailMessageId (messageRow j c gid tid t) = Some gid" "createdAt (messageRow j c gid tid t) = t"
  "m_id (messageRow j c gid tid t) = j"
  by (simp_all add: conversationRow_def messageRow_def)

lemma brandNew_createNewConversation:
  "createNewConversation en mailbox sender mail ig s = (s', conv) \<Longrightarrow>
     brandNew en mailbox sender mail ig s s' conv"
  unfolding brandNew_def
  using newConversationRow_id[of en mailbox sender mail ig s]
  by (auto simp: createNewConversation_eq summaryOf_def)

text \<open>
  C2. The conversation an inbound message attaches to. If the message id equals the thread
  id, a brand-new conversation is created. Otherwise, if no stored message has the thread
  id, a brand-new conversation is created in the same way; and if some has (every stored
  message having its conversation), the state is unchanged and the conversation is the one
  of a stored message of the thread with the latest \<open>createdAt\<close>.
\<close>

theorem resolveConversation_threading:
  assumes "resolveConversation en mailbox sender mail ig gid tid s = (s', conv)"
  shows "(gid = tid \<longrightarrow> brandNew en mailbox sender mail ig s s' conv) \<and>
     (gid \<noteq> tid \<and> (\<forall>m \<in> set (conversationMessages s). gmailThreadId m \<noteq> Some tid) \<longrightarrow>
        brandNew en mailbox sender mail ig s s' conv) \<and>
     (gid \<noteq> tid \<and> (\<exists>m \<in> set (conversationMessages s). gmailThreadId m = Some tid) \<and>
      (\<forall>m \<in> set (conversationMessages s). findConversation (conversationId m) s \<noteq> None) \<longrightarrow>
        (\<exists>m c. m \<in> set (conversationMessages s) \<and> gmailThreadId m = Some tid \<and>
           (\<forall>x \<in> set (conversationMessages s).
              gmailThreadId x = Some tid \<longrightarrow> createdAt x \<le> createdAt m) \<and>
           findConversation (conversationId m) s = Some c \<and>
           s' = s \<and> conv = summaryOf c))"
proof (intro conjI impI)
  assume "gid = tid"
  with assms have "createNewConversation en mailbox sender mail ig s = (s', conv)"
    by (simp add: resolveConversation_def isNewThread_def)
  then show "brandNew en mailbox sender mail ig s s' conv"
    by (rule brandNew_createNewConversation)
next
  assume h: "gid \<noteq> tid \<and> (\<forall>m \<in> set (conversationMessages s). gmailThreadId m \<noteq> Some tid)"
  then have "previousEmail tid s = None" by (simp add: previousEmail_None_iff)
  with assms h have "createNewConversation en mailbox sender mail ig s = (s', conv)"
    by (simp add: resolveConversation_def isNewThread_def)
  then show "brandNew en mailbox sender mail ig s s' conv"
    by (rule brandNew_createNewConversation)
next
  assume h: "gid \<noteq> tid \<and> (\<exists>m \<in> set (conversationMessages s). gmailThreadId m = Some tid) \<and>
      (\<forall>m \<in> set (conversationMessages s). findConversation (conversationId m) s \<noteq> None)"
  then have "previousEmail tid s \<noteq> None" by (simp add: previousEmail_None_iff)
  then obtain m where m: "previousEmail tid s = Some m" by auto
  note pm = previousEmail_Some[OF m]
  with h obtain c where c: "findConversation (conversationId m) s = Some c" by auto
  from assms h m c have "s' = s \<and> conv = summaryOf c"
    by (simp add: resolveConversation_def isNewThread_def)
  with pm c show "\<exists>m c. m \<in> set (conversationMessages s) \<and> gmailThreadId m = Some tid \<and>
           (\<forall>x \<in> set (conversationMessages s).
              gmailThreadId x = Some tid \<longrightarrow> createdAt x \<le> createdAt m) \<and>
           findConversation (conversationId m) s = Some c \<and>
           s' = s \<and> conv = summaryOf c" by blast
qed

theorem resolveConversation_threading_witness:
  "brandNew exampleEnv exampleMailbox exampleSender exampleMail False threadDb
     (fst (resolveConversation exampleEnv exampleMailbox exampleSender exampleMail False ''t1'' ''t1'' threadDb))
     (snd (resolveConversation exampleEnv exampleMailbox exampleSender exampleMail False ''t1'' ''t1'' threadDb)) \<and>
   brandNew exampleEnv exampleMailbox exampleSender exampleMail False threadDb
     (fst (resolveConversation exampleEnv exampleMailbox exampleSender exampleMail False ''m9'' ''t9'' threadDb))
     (snd (resolveConversation exampleEnv exampleMailbox exampleSender exampleMail False ''m9'' ''t9'' threadDb)) \<and>
   resolveConversation exampleEnv exampleMailbox exampleSender exampleMail False ''m3'' ''t1'' threadDb =
     (threadDb, summaryOf (conversationRow 2 Closed True None))"
proof -
  let ?r = "\<lambda>g t. resolveConversation exampleEnv exampleMailbox exampleSender exampleMail False g t threadDb"
  have 1: "brandNew exampleEnv exampleMailbox exampleSender exampleMail False threadDb
     (fst (?r ''t1'' ''t1'')) (snd (?r ''t1'' ''t1''))"
    using resolveConversation_threading[of exampleEnv exampleMailbox exampleSender exampleMail False
        "''t1''" "''t1''" threadDb "fst (?r ''t1'' ''t1'')" "snd (?r ''t1'' ''t1'')"]
    by simp
  have 2: "brandNew exampleEnv exampleMailbox exampleSender exampleMail False threadDb
     (fst (?r ''m9'' ''t9'')) (snd (?r ''m9'' ''t9''))"
    using resolveConversation_threading[of exampleEnv exampleMailbox exampleSender exampleMail False
        "''m9''" "''t9''" threadDb "fst (?r ''m9'' ''t9'')" "snd (?r ''m9'' ''t9'')"]
    by (simp add: threadDb_sel row_sel)
  have h: "(\<exists>m \<in> set (conversationMessages threadDb). gmailThreadId m = Some ''t1'') \<and>
      (\<forall>m \<in> set (conversationMessages threadDb). findConversation (conversationId m) threadDb \<noteq> None)"
    by (simp add: threadDb_sel row_sel findConversation_def)
  from resolveConversation_threading[of exampleEnv exampleMailbox exampleSender exampleMail False
        "''m3''" "''t1''" threadDb "fst (?r ''m3'' ''t1'')" "snd (?r ''m3'' ''t1'')"] h
  obtain m c where mc: "m \<in> set (conversationMessages threadDb)"
      "\<forall>x \<in> set (conversationMessages threadDb). gmailThreadId x = Some ''t1'' \<longrightarrow> createdAt x \<le> createdAt m"
      "findConversation (conversationId m) threadDb = Some c"
      "fst (?r ''m3'' ''t1'') = threadDb" "snd (?r ''m3'' ''t1'') = summaryOf c"
    by auto
  from mc(1,2) have "m = messageRow 2 2 ''m2'' ''t1'' 20"
    by (auto simp: threadDb_sel row_sel)
  with mc(3) have "c = conversationRow 2 Closed True None"
    by (simp add: threadDb_sel row_sel findConversation_def)
  with mc(4,5) have 3: "?r ''m3'' ''t1'' = (threadDb, summaryOf (conversationRow 2 Closed True None))"
    by (metis prod.collapse)
  from 1 2 3 show ?thesis by blast
qed


text \<open>
  C8. A conversation that \<open>createNewConversation\<close> creates is closed with \<open>closedAt\<close> the
  current time iff the message is ignored, and open with no \<open>closedAt\<close> otherwise; its
  \<open>assignedToAI\<close> is true iff the mailbox has preferences with \<open>autoRespondEmailToChat\<close> set.
  Resolving a conversation either leaves the state as it is or creates the conversation so.
\<close>

theorem createNewConversation_defaults:
  "(createNewConversation en mailbox sender mail ig s = (s', conv) \<longrightarrow>
      (\<exists>row. conversations s' = conversations s @ [row] \<and> conv = summaryOf row \<and>
         (c_status row = Closed \<and> closedAt row = Some (clock s)) = ig \<and>
         (c_status row = Open \<and> closedAt row = None) = (\<not> ig) \<and>
         assignedToAI row =
           (\<exists>p mode. mailbox_preferences mailbox = Some p \<and> autoRespondEmailToChat p = Some mode))) \<and>
   (resolveConversation en mailbox sender mail ig gid tid s = (s'', conv') \<longrightarrow>
      s'' = s \<or> createNewConversation en mailbox sender mail ig s = (s'', conv'))"
proof (intro conjI impI)
  assume a: "createNewConversation en mailbox sender mail ig s = (s', conv)"
  let ?row = "newConversationRow en mailbox sender mail ig s"
  have 1: "conversations s' = conversations s @ [?row] \<and> conv = summaryOf ?row"
    using a by (auto simp: createNewConversation_eq)
  have 2: "(c_status ?row = Closed \<and> closedAt ?row = Some (clock s)) = ig"
    by (simp add: newConversationRow_fields)
  have 3: "(c_status ?row = Open \<and> closedAt ?row = None) = (\<not> ig)"
    by (simp add: newConversationRow_fields)
  have 4: "assignedToAI ?row =
           (\<exists>p mode. mailbox_preferences mailbox = Some p \<and> autoRespondEmailToChat p = Some mode)"
    by (auto simp: newConversationRow_fields autoRespondMode_def split: option.splits)
  from 1 2 3 4 show "\<exists>row. conversations s' = conversations s @ [row] \<and> conv = summaryOf row \<and>
         (c_status row = Closed \<and> closedAt row = Some (clock s)) = ig \<and>
         (c_status row = Open \<and> closedAt row = None) = (\<not> ig) \<and>
         assignedToAI row =
           (\<exists>p mode. mailbox_preferences mailbox = Some p \<and> autoRespondEmailToChat p = Some mode)"
    by blast
next
  assume "resolveConversation en mailbox sender mail ig gid tid s = (s'', conv')"
  then show "s'' = s \<or> createNewConversation en mailbox sender mail ig s = (s'', conv')"
    by (auto simp: resolveConversation_def split: if_splits option.splits)
qed

theorem createNewConversation_defaults_witness:
  "(\<exists>row. conversations (fst (createNewConversation exampleEnv exampleMailbox exampleSender exampleMail True threadDb)) =
            conversations threadDb @ [row] \<and>
          c_status row = Closed \<and> closedAt row = Some 1000 \<and> assignedToAI row) \<and>
   (\<exists>row. conversations (fst (createNewConversation exampleEnv plainMailbox exampleSender exampleMail False threadDb)) =
            conversations threadDb @ [row] \<and>
          c_status row = Open \<and> closedAt row = None \<and> \<not> assignedToAI row)"
proof -
  let ?a = "createNewConversation exampleEnv exampleMailbox exampleSender exampleMail True threadDb"
  let ?b = "createNewConversation exampleEnv plainMailbox exampleSender exampleMail False threadDb"
  have p: "\<exists>p mode. mailbox_preferences exampleMailbox = Some p \<and> autoRespondEmailToChat p = Some mode"
    by (simp add: exampleMailbox_def)
  have q: "\<not> (\<exists>p mode. mailbox_preferences plainMailbox = Some p \<and> autoRespondEmailToChat p = Some mode)"
    by (simp add: plainMailbox_def)
  have 1: "\<exists>row. conversations (fst ?a) = conversations threadDb @ [row] \<and>
          c_status row = Closed \<and> closedAt row = Some 1000 \<and> assignedToAI row"
    using createNewConversation_defaults[where en=exampleEnv and mailbox=exampleMailbox
        and sender=exampleSender and mail=exampleMail and ig=True and s=threadDb
        and s'="fst ?a" and conv="snd ?a", THEN conjunct1] p
    by (auto simp: threadDb_sel)
  have 2: "\<exists>row. conversations (fst ?b) = conversations threadDb @ [row] \<and>
          c_status row = Open \<and> closedAt row = None \<and> \<not> assignedToAI row"
    using createNewConversation_defaults[where en=exampleEnv and mailbox=plainMailbox
        and sender=exampleSender and mail=exampleMail and ig=False and s=threadDb
        and s'="fst ?b" and conv="snd ?b", THEN conjunct1] q
    by auto
  from 1 2 show ?thesis by blast
qed

section \<open>The state machine: what an update touches\<close>

lemma c_id_applyUpdate: "c_id (applyUpdate u t c) = c_id c"
  by (simp add: applyUpdate_def)

lemma find_map_update:
  "find (\<lambda>c. c_id c = j) (map (\<lambda>c. if c_id c = i then applyUpdate u t c else c) cs) =
     (if j = i then map_option (applyUpdate u t) (find (\<lambda>c. c_id c = j) cs)
      else find (\<lambda>c. c_id c = j) cs)"
  by (induction cs) (auto simp: c_id_applyUpdate)

lemma updateConversation_None:
  "findConversation i s = None \<Longrightarrow> updateConversation i opts s = (s, None)"
  by (simp add: updateConversation_def)

lemma conversations_triggerEvent [simp]:
  "conversations (triggerEvent ev d sl s) = conversations s"
  "conversationMessages (triggerEvent ev d sl s) = conversationMessages s"
  "conversationEvents (triggerEvent ev d sl s) = conversationEvents s"
  "gmailSupportEmails (triggerEvent ev d sl s) = gmailSupportEmails s"
  "published (triggerEvent ev d sl s) = published s"
  "captured (triggerEvent ev d sl s) = captured s"
  "clock (triggerEvent ev d sl s) = clock s"
  by (simp_all add: triggerEvent_def)

lemma updateConversation_Some:
  assumes "findConversation i s = Some current"
  shows "conversations (fst (updateConversation i opts s)) =
           map (\<lambda>c. if c_id c = i then applyUpdate (upd_set opts) (clock s) c else c) (conversations s)"
    and "conversationEvents (fst (updateConversation i opts s)) =
           conversationEvents s @ [eventOf i opts current]"
    and "conversationMessages (fst (updateConversation i opts s)) = conversationMessages s"
    and "gmailSupportEmails (fst (updateConversation i opts s)) = gmailSupportEmails s"
    and "captured (fst (updateConversation i opts s)) = captured s"
    and "clock (fst (updateConversation i opts s)) = clock s"
    and "skipRealtimeEvents opts \<Longrightarrow> published (fst (updateConversation i opts s)) = published s"
  using assms by (simp_all add: updateConversation_def Let_def eventOf_def)

lemma findConversation_updateConversation:
  "findConversation j (fst (updateConversation i opts s)) =
     (if j = i then map_option (applyUpdate (upd_set opts) (clock s)) (findConversation j s)
      else findConversation j s)"
proof (cases "findConversation i s")
  case None
  then show ?thesis by (auto simp: updateConversation_None)
next
  case (Some current)
  show ?thesis
    unfolding findConversation_def updateConversation_Some(1)[OF Some] find_map_update
    by simp
qed

lemma updateConversation_frame:
  "conversationMessages (fst (updateConversation i opts s)) = conversationMessages s"
  "gmailSupportEmails (fst (updateConversation i opts s)) = gmailSupportEmails s"
  "captured (fst (updateConversation i opts s)) = captured s"
  "clock (fst (updateConversation i opts s)) = clock s"
  by (cases "findConversation i s"; simp add: updateConversation_None updateConversation_Some)+

lemma updateConversation_published:
  "skipRealtimeEvents opts \<Longrightarrow> published (fst (updateConversation i opts s)) = published s"
  by (cases "findConversation i s"; simp add: updateConversation_None updateConversation_Some)

lemma updateConversation_events:
  "conversationEvents (fst (updateConversation i opts s)) =
     conversationEvents s @
       (case findConversation i s of None \<Rightarrow> [] | Some current \<Rightarrow> [eventOf i opts current])"
  by (cases "findConversation i s"; simp add: updateConversation_None updateConversation_Some)

lemma map_c_id_updateConversation:
  "map c_id (conversations (fst (updateConversation i opts s))) = map c_id (conversations s)"
  by (cases "findConversation i s";
      simp add: updateConversation_None updateConversation_Some c_id_applyUpdate comp_def
           if_distrib[of c_id] cong: if_cong)

section \<open>Creating a message: what it touches\<close>

lemma fold_sendEvent_frame:
  "conversations (fold sendEvent es s) = conversations s"
  "conversationMessages (fold sendEvent es s) = conversationMessages s"
  "conversationEvents (fold sendEvent es s) = conversationEvents s"
  "gmailSupportEmails (fold sendEvent es s) = gmailSupportEmails s"
  "published (fold sendEvent es s) = published s"
  "captured (fold sendEvent es s) = captured s"
  "clock (fold sendEvent es s) = clock s"
  by (induction es arbitrary: s; simp add: sendEvent_def)+

lemma touch_sel:
  "set_status (upd_set (touch m now)) = None"
  "set_assignedToId (upd_set (touch m now)) = None"
  "set_assignedToAI (upd_set (touch m now)) = None"
  "skipRealtimeEvents (touch m now)"
  "upd_message (touch m now) = None"
  by (simp_all add: touch_def noUpdate_def)

lemma createConversationMessage_eq:
  "createConversationMessage en n s =
     (fold sendEvent (eventsToSend en (insertedMessage n s))
        (fst (updateConversation (conversationId (insertedMessage n s))
                (touch (insertedMessage n s) (clock s))
                (s\<lparr>conversationMessages := conversationMessages s @ [insertedMessage n s]\<rparr>))),
      insertedMessage n s)"
  by (simp add: createConversationMessage_def Let_def case_prod_beta touch_def)

lemma applyUpdate_keeps:
  "set_status u = None \<Longrightarrow> c_status (applyUpdate u t c) = c_status c"
  "set_assignedToId u = None \<Longrightarrow> assignedToId (applyUpdate u t c) = assignedToId c"
  "set_assignedToAI u = None \<Longrightarrow> assignedToAI (applyUpdate u t c) = assignedToAI c"
  "slug (applyUpdate u t c) = slug c"
  by (simp_all add: applyUpdate_def orElse_def)

lemma createConversationMessage_frame:
  "conversationMessages (fst (createConversationMessage en n s)) =
     conversationMessages s @ [insertedMessage n s]"
  "gmailSupportEmails (fst (createConversationMessage en n s)) = gmailSupportEmails s"
  "published (fst (createConversationMessage en n s)) = published s"
  "captured (fst (createConversationMessage en n s)) = captured s"
  "clock (fst (createConversationMessage en n s)) = clock s"
  "map c_id (conversations (fst (createConversationMessage en n s))) = map c_id (conversations s)"
  by (simp_all add: createConversationMessage_eq fold_sendEvent_frame updateConversation_frame
      updateConversation_published touch_sel map_c_id_updateConversation)

lemma findConversation_createConversationMessage:
  "findConversation j (fst (createConversationMessage en n s)) =
     (if j = n_conversationId n
      then map_option (applyUpdate (upd_set (touch (insertedMessage n s) (clock s))) (clock s))
             (findConversation j s)
      else findConversation j s)"
proof -
  have f: "findConversation j (fold sendEvent es t) = findConversation j t" for es t
    by (simp add: findConversation_def fold_sendEvent_frame)
  have g: "findConversation k (s\<lparr>conversationMessages := ms\<rparr>) = findConversation k s" for ms k
    by (simp add: findConversation_def)
  have c: "conversationId (insertedMessage n s) = n_conversationId n"
    by (simp add: insertedMessage_def)
  show ?thesis
    by (simp add: createConversationMessage_eq f findConversation_updateConversation g c)
qed

lemma createConversationMessage_events_log:
  "conversationEvents (fst (createConversationMessage en n s)) =
     conversationEvents s @
       (case findConversation (n_conversationId n) s of None \<Rightarrow> []
        | Some current \<Rightarrow>
            [eventOf (n_conversationId n) (touch (insertedMessage n s) (clock s)) current])"
proof -
  have g: "findConversation j (s\<lparr>conversationMessages := ms\<rparr>) = findConversation j s" for ms j
    by (simp add: findConversation_def)
  have c: "conversationId (insertedMessage n s) = n_conversationId n"
    by (simp add: insertedMessage_def)
  show ?thesis
    by (simp add: createConversationMessage_eq fold_sendEvent_frame updateConversation_events g c)
qed

lemma assignFirstStaff_eq:
  "assignFirstStaff en i addrs s =
     (case find (\<lambda>a. getBasicProfileByEmail en a \<noteq> None) addrs of
        None \<Rightarrow> s
      | Some a \<Rightarrow>
          (case getBasicProfileByEmail en a of
             None \<Rightarrow> s
           | Some u \<Rightarrow> fst (updateConversation i (ccUpdate u) s)))"
  by (induction addrs) (auto split: option.splits)

lemma settleAll_frame:
  "\<exists>errs. fst (settleAll en as s) = s\<lparr>captured := captured s @ errs\<rparr>"
proof (induction as arbitrary: s)
  case Nil
  have "s = s\<lparr>captured := captured s @ []\<rparr>" by simp
  then show ?case by (metis fst_conv settleAll.simps(1))
next
  case (Cons a as)
  show ?case
  proof (cases "uploadFailure a")
    case None
    then show ?thesis using Cons[of s] by simp
  next
    case (Some e)
    let ?s1 = "s\<lparr>captured := captured s @ [e]\<rparr>"
    from Cons[of ?s1] obtain errs where
      "fst (settleAll en as ?s1) = ?s1\<lparr>captured := captured ?s1 @ errs\<rparr>" by blast
    then have "fst (settleAll en (a # as) s) = s\<lparr>captured := captured s @ ([e] @ errs)\<rparr>"
      using Some
      by (simp add: captureExceptionAndThrowIfDevelopment_def captureExceptionAndLog_def
          case_prod_beta)
    then show ?thesis by blast
  qed
qed

lemma processGmailAttachments_frame:
  "\<exists>errs. fst (processGmailAttachments en as s) = s\<lparr>captured := captured s @ errs\<rparr>"
  unfolding processGmailAttachments_def by (rule settleAll_frame)

lemma settleAll_rejects:
  "snd (settleAll en as t) \<noteq> None \<Longrightarrow> throwInThisEnvironment en \<and> as \<noteq> []"
proof (induction as arbitrary: t)
  case Nil
  then show ?case by simp
next
  case (Cons x xs)
  then show ?case
    by (cases "uploadFailure x")
       (auto simp: captureExceptionAndThrowIfDevelopment_def case_prod_beta split: if_splits)
qed

lemma processGmailAttachments_rejects:
  assumes "snd (processGmailAttachments en as t) \<noteq> None"
  shows "throwInThisEnvironment en \<and> as \<noteq> []"
proof -
  from assms have "throwInThisEnvironment en \<and> sort_key settledAt as \<noteq> []"
    unfolding processGmailAttachments_def by (rule settleAll_rejects)
  then show ?thesis by auto
qed

section \<open>The assignment from the CC field\<close>

lemma find_filter_first:
  "(\<forall>b \<in> set pre. \<not> Q b \<or> \<not> P b) \<Longrightarrow> Q a \<Longrightarrow> P a \<Longrightarrow>
     find P (filter Q (pre @ a # post)) = Some a"
  by (induction pre) auto

lemma find_filter_none:
  "(\<forall>b \<in> set xs. \<not> Q b \<or> \<not> P b) \<Longrightarrow> find P (filter Q xs) = None"
  by (induction xs) auto

lemma createMessage_state:
  "\<exists>errs. fst (createMessageAndProcessAttachments en gse mail sender html cleaned gid tid conv staffUser s) =
     (let s2 = assignFromCc en gse (map_option addressesToString (pm_cc mail)) staffUser (c_id conv)
                 (fst (createConversationMessage en
                    (newEmailValues en mail sender html cleaned gid tid (c_id conv) staffUser (clock s)) s))
      in s2\<lparr>captured := captured s2 @ errs\<rparr>)"
proof -
  let ?s2 = "assignFromCc en gse (map_option addressesToString (pm_cc mail)) staffUser (c_id conv)
                 (fst (createConversationMessage en
                    (newEmailValues en mail sender html cleaned gid tid (c_id conv) staffUser (clock s)) s))"
  obtain errs where e: "fst (processGmailAttachments en (pm_attachments mail) ?s2) =
      ?s2\<lparr>captured := captured ?s2 @ errs\<rparr>"
    using processGmailAttachments_frame by blast
  let ?r = "snd (processGmailAttachments en (pm_attachments mail) ?s2)"
  show ?thesis
  proof (cases ?r)
    case None
    then have "fst (createMessageAndProcessAttachments en gse mail sender html cleaned gid tid conv staffUser s) =
       ?s2\<lparr>captured := captured ?s2 @ errs\<rparr>"
      using e by (simp add: createMessageAndProcessAttachments_def Let_def case_prod_beta)
    then show ?thesis unfolding Let_def by blast
  next
    case (Some x)
    then have "fst (createMessageAndProcessAttachments en gse mail sender html cleaned gid tid conv staffUser s) =
       ?s2\<lparr>captured := captured ?s2 @ (errs @ [x])\<rparr>"
      using e by (simp add: createMessageAndProcessAttachments_def Let_def case_prod_beta
          captureExceptionAndThrowIfDevelopment_def captureExceptionAndLog_def split: option.splits)
    then show ?thesis unfolding Let_def by blast
  qed
qed


lemma applyUpdate_ccUpdate:
  "assignedToId (applyUpdate (upd_set (ccUpdate u)) t c) = Some (user_id u)"
  "assignedToAI (applyUpdate (upd_set (ccUpdate u)) t c) = False"
  "c_status (applyUpdate (upd_set (ccUpdate u)) t c) = c_status c"
  by (simp_all add: applyUpdate_def ccUpdate_def noUpdate_def orElse_def)

lemma eventOf_ccUpdate:
  "reason (eventOf i (ccUpdate u) c) = Some ''Auto-assigned based on CC''"
  "ev_conversationId (eventOf i (ccUpdate u) c) = i"
  "byUserId (eventOf i (ccUpdate u) c) = None"
  "ch_assignedToId (changes (eventOf i (ccUpdate u) c)) = Some (assignedToId c)"
  "ch_assignedToAI (changes (eventOf i (ccUpdate u) c)) = Some (assignedToAI c)"
  by (simp_all add: eventOf_def ccUpdate_def noUpdate_def)

lemma eventOf_touch: "reason (eventOf i (touch m t) c) = None"
  by (simp add: eventOf_def touch_sel)

lemma n_conversationId_newEmailValues:
  "n_conversationId (newEmailValues en mail sender html cleaned gid tid cid staffUser now) = cid"
  by (simp add: newEmailValues_def Let_def)

text \<open>
  C7. An inbound message with a non-empty CC field and no staff sender, on a conversation
  whose \<open>assignedToId\<close> is null (whatever its \<open>assignedToAI\<close>): the conversation is assigned
  to the first CC address that is not the mailbox's own address (compared in lower case)
  and has a staff profile, \<open>assignedToAI\<close> becomes false, and the conversation event has the
  reason "Auto-assigned based on CC"; if no CC address qualifies, the conversation stays
  unassigned and keeps its \<open>assignedToAI\<close>. Nothing is published to the realtime sink.
\<close>

theorem cc_auto_assignment:
  assumes cc: "pm_cc mail = Some f" "addressesToString f \<noteq> []"
    and staff: "staffUser = None"
    and row: "findConversation (c_id conv) s = Some row" "assignedToId row = None"
    and res: "createMessageAndProcessAttachments en gse mail sender html cleaned gid tid conv staffUser s = (s', r)"
  shows "published s' = published s \<and>
    (\<forall>pre a post u.
       extractAddresses en (addressesToString f) = pre @ a # post \<and>
       toLowerCase a \<noteq> toLowerCase (email gse) \<and> getBasicProfileByEmail en a = Some u \<and>
       (\<forall>b \<in> set pre. toLowerCase b = toLowerCase (email gse) \<or> getBasicProfileByEmail en b = None) \<longrightarrow>
       (\<exists>row'. findConversation (c_id conv) s' = Some row' \<and>
           assignedToId row' = Some (user_id u) \<and> \<not> assignedToAI row' \<and> c_status row' = c_status row) \<and>
       (\<exists>e0 e1. conversationEvents s' = conversationEvents s @ [e0, e1] \<and> reason e0 = None \<and>
           reason e1 = Some ''Auto-assigned based on CC'' \<and> ev_conversationId e1 = c_id conv \<and>
           byUserId e1 = None \<and> ch_assignedToId (changes e1) = Some None \<and>
           ch_assignedToAI (changes e1) = Some (assignedToAI row))) \<and>
    ((\<forall>b \<in> set (extractAddresses en (addressesToString f)).
         toLowerCase b = toLowerCase (email gse) \<or> getBasicProfileByEmail en b = None) \<longrightarrow>
       (\<exists>row'. findConversation (c_id conv) s' = Some row' \<and>
           assignedToId row' = None \<and> assignedToAI row' = assignedToAI row \<and> c_status row' = c_status row) \<and>
       (\<exists>e0. conversationEvents s' = conversationEvents s @ [e0] \<and> reason e0 = None))"
proof -
  let ?cid = "c_id conv"
  let ?nv = "newEmailValues en mail sender html cleaned gid tid ?cid staffUser (clock s)"
  let ?s1 = "fst (createConversationMessage en ?nv s)"
  let ?tu = "touch (insertedMessage ?nv s) (clock s)"
  let ?row1 = "applyUpdate (upd_set ?tu) (clock s) row"
  let ?cctext = "addressesToString f"
  let ?s2 = "assignFromCc en gse (map_option addressesToString (pm_cc mail)) staffUser ?cid ?s1"
  let ?P = "\<lambda>a. getBasicProfileByEmail en a \<noteq> None"
  let ?Q = "\<lambda>a. toLowerCase a \<noteq> toLowerCase (email gse)"
  have f1: "findConversation ?cid ?s1 = Some ?row1"
    by (simp add: findConversation_createConversationMessage n_conversationId_newEmailValues row)
  have r1: "assignedToId ?row1 = None" "assignedToAI ?row1 = assignedToAI row"
    "c_status ?row1 = c_status row"
    by (simp_all add: applyUpdate_keeps touch_sel row)
  have e1: "conversationEvents ?s1 = conversationEvents s @ [eventOf ?cid ?tu row]"
    by (simp add: createConversationMessage_events_log n_conversationId_newEmailValues row)
  have p1: "published ?s1 = published s"
    by (simp add: createConversationMessage_frame)
  have s2: "?s2 = assignFirstStaff en ?cid (filter ?Q (extractAddresses en ?cctext)) ?s1"
    using cc staff f1 r1(1)
    by (simp add: assignFromCc_def truthy_def Let_def assignBasedOnCc_def ccAddresses_def orElse_def)
  obtain errs where s': "s' = ?s2\<lparr>captured := captured ?s2 @ errs\<rparr>"
    using createMessage_state[of en gse mail sender html cleaned gid tid conv staffUser s] res
    by (auto simp: Let_def)
  have fc: "findConversation ?cid s' = findConversation ?cid ?s2"
    by (simp add: s' findConversation_def)
  have ev: "conversationEvents s' = conversationEvents ?s2" by (simp add: s')
  have pub: "published s' = published ?s2" by (simp add: s')
  have A: "(\<exists>row'. findConversation ?cid s' = Some row' \<and>
           assignedToId row' = Some (user_id u) \<and> \<not> assignedToAI row' \<and> c_status row' = c_status row) \<and>
       (\<exists>e0 e1. conversationEvents s' = conversationEvents s @ [e0, e1] \<and> reason e0 = None \<and>
           reason e1 = Some ''Auto-assigned based on CC'' \<and> ev_conversationId e1 = ?cid \<and>
           byUserId e1 = None \<and> ch_assignedToId (changes e1) = Some None \<and>
           ch_assignedToAI (changes e1) = Some (assignedToAI row))"
    if h: "extractAddresses en ?cctext = pre @ a # post"
       "toLowerCase a \<noteq> toLowerCase (email gse)" "getBasicProfileByEmail en a = Some u"
       "\<forall>b \<in> set pre. toLowerCase b = toLowerCase (email gse) \<or> getBasicProfileByEmail en b = None"
    for pre a post u
  proof -
    have "find ?P (filter ?Q (pre @ a # post)) = Some a"
      by (rule find_filter_first) (use h in auto)
    then have s2u: "?s2 = fst (updateConversation ?cid (ccUpdate u) ?s1)"
      using h by (simp add: s2 assignFirstStaff_eq)
    have a1: "findConversation ?cid ?s2 = Some (applyUpdate (upd_set (ccUpdate u)) (clock ?s1) ?row1)"
      by (simp add: s2u findConversation_updateConversation f1)
    have a2: "conversationEvents ?s2 =
        conversationEvents s @ [eventOf ?cid ?tu row, eventOf ?cid (ccUpdate u) ?row1]"
      by (simp add: s2u updateConversation_events f1 e1)
    have a3: "published ?s2 = published s"
      by (simp add: s2u updateConversation_published ccUpdate_def p1)
    show ?thesis
      unfolding fc ev a1 a2
      by (simp add: applyUpdate_ccUpdate eventOf_ccUpdate eventOf_touch r1)
  qed
  have B: "(\<exists>row'. findConversation ?cid s' = Some row' \<and>
           assignedToId row' = None \<and> assignedToAI row' = assignedToAI row \<and> c_status row' = c_status row) \<and>
       (\<exists>e0. conversationEvents s' = conversationEvents s @ [e0] \<and> reason e0 = None)"
    if h: "\<forall>b \<in> set (extractAddresses en ?cctext).
         toLowerCase b = toLowerCase (email gse) \<or> getBasicProfileByEmail en b = None"
  proof -
    have "find ?P (filter ?Q (extractAddresses en ?cctext)) = None"
      by (rule find_filter_none) (use h in auto)
    then have s2u: "?s2 = ?s1" by (simp add: s2 assignFirstStaff_eq)
    show ?thesis
      unfolding fc ev s2u f1 e1
      by (simp add: r1 eventOf_touch)
  qed
  have C: "published ?s2 = published s"
  proof (cases "find ?P (filter ?Q (extractAddresses en ?cctext))")
    case None
    then show ?thesis by (simp add: s2 assignFirstStaff_eq p1)
  next
    case (Some a)
    then show ?thesis
      by (simp add: s2 assignFirstStaff_eq p1 updateConversation_published ccUpdate_def
          split: option.splits)
  qed
  have P1: "published s' = published s" using C pub by simp
  have P2: "\<forall>pre a post u.
       extractAddresses en (addressesToString f) = pre @ a # post \<and>
       toLowerCase a \<noteq> toLowerCase (email gse) \<and> getBasicProfileByEmail en a = Some u \<and>
       (\<forall>b \<in> set pre. toLowerCase b = toLowerCase (email gse) \<or> getBasicProfileByEmail en b = None) \<longrightarrow>
       (\<exists>row'. findConversation (c_id conv) s' = Some row' \<and>
           assignedToId row' = Some (user_id u) \<and> \<not> assignedToAI row' \<and> c_status row' = c_status row) \<and>
       (\<exists>e0 e1. conversationEvents s' = conversationEvents s @ [e0, e1] \<and> reason e0 = None \<and>
           reason e1 = Some ''Auto-assigned based on CC'' \<and> ev_conversationId e1 = c_id conv \<and>
           byUserId e1 = None \<and> ch_assignedToId (changes e1) = Some None \<and>
           ch_assignedToAI (changes e1) = Some (assignedToAI row))"
  proof (intro allI impI)
    fix pre a post u
    assume h: "extractAddresses en (addressesToString f) = pre @ a # post \<and>
       toLowerCase a \<noteq> toLowerCase (email gse) \<and> getBasicProfileByEmail en a = Some u \<and>
       (\<forall>b \<in> set pre. toLowerCase b = toLowerCase (email gse) \<or> getBasicProfileByEmail en b = None)"
    show "(\<exists>row'. findConversation (c_id conv) s' = Some row' \<and>
           assignedToId row' = Some (user_id u) \<and> \<not> assignedToAI row' \<and> c_status row' = c_status row) \<and>
       (\<exists>e0 e1. conversationEvents s' = conversationEvents s @ [e0, e1] \<and> reason e0 = None \<and>
           reason e1 = Some ''Auto-assigned based on CC'' \<and> ev_conversationId e1 = c_id conv \<and>
           byUserId e1 = None \<and> ch_assignedToId (changes e1) = Some None \<and>
           ch_assignedToAI (changes e1) = Some (assignedToAI row))"
      by (rule A[of pre a post u]) (use h in simp_all)
  qed
  have P3: "(\<forall>b \<in> set (extractAddresses en (addressesToString f)).
         toLowerCase b = toLowerCase (email gse) \<or> getBasicProfileByEmail en b = None) \<longrightarrow>
       (\<exists>row'. findConversation (c_id conv) s' = Some row' \<and>
           assignedToId row' = None \<and> assignedToAI row' = assignedToAI row \<and> c_status row' = c_status row) \<and>
       (\<exists>e0. conversationEvents s' = conversationEvents s @ [e0] \<and> reason e0 = None)"
    using B by (rule impI)
  from P1 P2 P3 show ?thesis by (intro conjI)
qed


lemma lower_support: "toLowerCase ''Support@Example.com'' = ''support@example.com''"
  by (simp add: toLowerCase_def toLowerChar_def char_of_eq_iff)

lemma lower_plain:
  "toLowerCase ''support@example.com'' = ''support@example.com''"
  "toLowerCase ''agent@example.com'' = ''agent@example.com''"
  "toLowerCase ''other@example.com'' = ''other@example.com''"
  "toLowerCase ''user2@example.com'' = ''user2@example.com''"
  by (simp_all add: toLowerCase_def toLowerChar_def)

theorem cc_auto_assignment_witness:
  "assignedToAI (conversationRow 2 Closed True None) \<and>
   (\<exists>row'. findConversation 2
             (fst (createMessageAndProcessAttachments ccEnv supportEmail ccMail exampleSender
                     ''<p>Hi</p>'' ''Hi'' ''m3'' ''t1'' aiConversation None threadDb)) = Some row' \<and>
           assignedToId row' = Some ''u1'' \<and> \<not> assignedToAI row') \<and>
   (\<exists>row'. findConversation 2
             (fst (createMessageAndProcessAttachments noStaffCcEnv supportEmail ccMail exampleSender
                     ''<p>Hi</p>'' ''Hi'' ''m3'' ''t1'' aiConversation None threadDb)) = Some row' \<and>
           assignedToId row' = None \<and> assignedToAI row')"
proof -
  let ?f = "Many [''Support <Support@Example.com>'', ''other@example.com'', ''agent@example.com'']"
  let ?row = "conversationRow 2 Closed True None"
  let ?u = "\<lparr>user_id = ''u1'', user_email = ''agent@example.com''\<rparr>"
  let ?a = "createMessageAndProcessAttachments ccEnv supportEmail ccMail exampleSender
                     ''<p>Hi</p>'' ''Hi'' ''m3'' ''t1'' aiConversation None threadDb"
  let ?b = "createMessageAndProcessAttachments noStaffCcEnv supportEmail ccMail exampleSender
                     ''<p>Hi</p>'' ''Hi'' ''m3'' ''t1'' aiConversation None threadDb"
  have cid: "c_id aiConversation = 2" by (simp add: aiConversation_def summaryOf_def row_sel)
  have h1: "pm_cc ccMail = Some ?f" by (simp add: ccMail_def)
  have h2: "addressesToString ?f \<noteq> []" by (simp add: addressesToString_def)
  have h3: "findConversation (c_id aiConversation) threadDb = Some ?row"
    by (simp add: cid findConversation_def threadDb_sel row_sel)
  have h4: "assignedToId ?row = None" by (simp add: row_sel)
  have ai: "assignedToAI ?row" by (simp add: row_sel)
  have mail: "email supportEmail = ''support@example.com''" by (simp add: supportEmail_def)
  have x1: "extractAddresses ccEnv (addressesToString ?f) =
      [''Support@Example.com'', ''other@example.com''] @ ''agent@example.com'' # []"
    by (simp add: ccEnv_def exampleEnv_def)
  have x2: "toLowerCase ''agent@example.com'' \<noteq> toLowerCase (email supportEmail)"
    by (simp add: mail lower_plain)
  have x3: "getBasicProfileByEmail ccEnv ''agent@example.com'' = Some ?u"
    by (simp add: ccEnv_def exampleEnv_def)
  have x4: "\<forall>b \<in> set [''Support@Example.com'', ''other@example.com''].
      toLowerCase b = toLowerCase (email supportEmail) \<or> getBasicProfileByEmail ccEnv b = None"
    by (simp add: mail lower_plain lower_support ccEnv_def exampleEnv_def)
  have y1: "\<forall>b \<in> set (extractAddresses noStaffCcEnv (addressesToString ?f)).
      toLowerCase b = toLowerCase (email supportEmail) \<or> getBasicProfileByEmail noStaffCcEnv b = None"
    by (simp add: mail lower_plain noStaffCcEnv_def exampleEnv_def)
  have A: "\<exists>row'. findConversation 2 (fst ?a) = Some row' \<and>
           assignedToId row' = Some ''u1'' \<and> \<not> assignedToAI row'"
    using cc_auto_assignment[OF h1 h2 refl h3 h4 prod.collapse[symmetric, of ?a], THEN conjunct2,
        THEN conjunct1, rule_format, of "[''Support@Example.com'', ''other@example.com'']"
        "''agent@example.com''" "[]" ?u] x1 x2 x3 x4
    by (auto simp: cid)
  have B: "\<exists>row'. findConversation 2 (fst ?b) = Some row' \<and>
           assignedToId row' = None \<and> assignedToAI row'"
    using cc_auto_assignment[OF h1 h2 refl h3 h4 prod.collapse[symmetric, of ?b], THEN conjunct2,
        THEN conjunct2, rule_format] y1 ai
    by (auto simp: cid)
  from ai A B show ?thesis by blast
qed

section \<open>Reopening a closed conversation\<close>

lemma applyUpdate_openUpdate:
  "c_status (applyUpdate (upd_set openUpdate) t c) = Open"
  "assignedToId (applyUpdate (upd_set openUpdate) t c) = assignedToId c"
  "assignedToAI (applyUpdate (upd_set openUpdate) t c) = assignedToAI c"
  by (simp_all add: applyUpdate_def openUpdate_def noUpdate_def orElse_def)

lemma findConversation_triggerEvent [simp]:
  "findConversation j (triggerEvent ev d sl s) = findConversation j s"
  by (simp add: findConversation_def)

lemma findConversation_completeIngestion:
  "findConversation j (fst (completeIngestion mailbox conv newEmail ig auto gid tid s)) =
     (if j = c_id conv \<and> shouldReopen mailbox conv ig
      then map_option (applyUpdate (upd_set openUpdate) (clock s)) (findConversation j s)
      else findConversation j s)"
  by (auto simp: completeIngestion_def Let_def shouldReopen_def findConversation_updateConversation)


lemma status_updateConversation:
  "set_status (upd_set opts) = None \<Longrightarrow>
     map_option c_status (findConversation j (fst (updateConversation i opts s))) =
     map_option c_status (findConversation j s)"
  by (cases "findConversation j s")
     (auto simp: findConversation_updateConversation applyUpdate_keeps)

lemma ccUpdate_no_status: "set_status (upd_set (ccUpdate u)) = None"
  by (simp add: ccUpdate_def noUpdate_def)

lemma status_assignFirstStaff:
  "map_option c_status (findConversation j (assignFirstStaff en i addrs s)) =
   map_option c_status (findConversation j s)"
  by (simp add: assignFirstStaff_eq status_updateConversation ccUpdate_no_status split: option.splits)

lemma status_assignFromCc:
  "map_option c_status (findConversation j (assignFromCc en gse cc staffUser i s)) =
   map_option c_status (findConversation j s)"
  by (simp add: assignFromCc_def Let_def assignBasedOnCc_def status_assignFirstStaff)

lemma status_createConversationMessage:
  "map_option c_status (findConversation j (fst (createConversationMessage en n s))) =
   map_option c_status (findConversation j s)"
  by (cases "findConversation j s")
     (auto simp: findConversation_createConversationMessage applyUpdate_keeps touch_sel)

lemma status_createMessage:
  "map_option c_status
     (findConversation j (fst (createMessageAndProcessAttachments en gse mail sender html cleaned
                                  gid tid conv staffUser s))) =
   map_option c_status (findConversation j s)"
proof -
  obtain errs where e: "fst (createMessageAndProcessAttachments en gse mail sender html cleaned gid tid conv staffUser s) =
     (let s2 = assignFromCc en gse (map_option addressesToString (pm_cc mail)) staffUser (c_id conv)
                 (fst (createConversationMessage en
                    (newEmailValues en mail sender html cleaned gid tid (c_id conv) staffUser (clock s)) s))
      in s2\<lparr>captured := captured s2 @ errs\<rparr>)"
    using createMessage_state by blast
  have c: "findConversation j (t\<lparr>captured := x\<rparr>) = findConversation j t" for t x
    by (simp add: findConversation_def)
  show ?thesis
    unfolding e Let_def c by (simp add: status_assignFromCc status_createConversationMessage)
qed

lemma find_append_new:
  "c_id row \<notin> c_id ` set cs \<Longrightarrow> find (\<lambda>c. c_id c = c_id row) (cs @ [row]) = Some row"
  by (induction cs) auto

lemma findConversation_createNewConversation:
  "createNewConversation en mailbox sender mail ig s = (s', conv) \<Longrightarrow>
     \<exists>row. findConversation (c_id conv) s' = Some row \<and> summaryOf row = conv"
proof -
  assume a: "createNewConversation en mailbox sender mail ig s = (s', conv)"
  let ?row = "newConversationRow en mailbox sender mail ig s"
  have 1: "s' = s\<lparr>conversations := conversations s @ [?row]\<rparr>" "conv = summaryOf ?row"
    using a by (auto simp: createNewConversation_eq)
  have 2: "c_id conv = c_id ?row" by (simp add: 1 summaryOf_def)
  have "findConversation (c_id ?row) s' = Some ?row"
    unfolding findConversation_def 1
    using find_append_new[OF newConversationRow_id[of en mailbox sender mail ig s]] by simp
  then show ?thesis using 1 2 by auto
qed

lemma resolveConversation_cases:
  assumes "resolveConversation en mailbox sender mail ig gid tid s = (s', conv)"
  shows "createNewConversation en mailbox sender mail ig s = (s', conv) \<or>
         (\<exists>(m::conversation_message) c.
            findConversation (conversationId m) s = Some c \<and> s' = s \<and> conv = summaryOf c)"
proof (cases "isNewThread gid tid")
  case True
  with assms show ?thesis by (simp add: resolveConversation_def)
next
  case nt: False
  show ?thesis
  proof (cases "previousEmail tid s")
    case None
    with assms nt show ?thesis by (simp add: resolveConversation_def)
  next
    case (Some m)
    show ?thesis
    proof (cases "findConversation (conversationId m) s")
      case None
      with assms nt Some show ?thesis by (simp add: resolveConversation_def)
    next
      case c: (Some c)
      with assms nt Some have "s' = s \<and> conv = summaryOf c"
        by (simp add: resolveConversation_def)
      with c show ?thesis by auto
    qed
  qed
qed

lemma findConversation_resolveConversation:
  assumes "resolveConversation en mailbox sender mail ig gid tid s = (s', conv)"
  shows "\<exists>row. findConversation (c_id conv) s' = Some row \<and> summaryOf row = conv"
proof -
  from resolveConversation_cases[OF assms] show ?thesis
  proof
    assume "createNewConversation en mailbox sender mail ig s = (s', conv)"
    then show ?thesis by (rule findConversation_createNewConversation)
  next
    assume "\<exists>(m::conversation_message) c.
        findConversation (conversationId m) s = Some c \<and> s' = s \<and> conv = summaryOf c"
    then obtain m :: conversation_message and c
      where old: "findConversation (conversationId m) s = Some c" "s' = s"
      "conv = summaryOf c" by auto
    have "c_id c = conversationId m" using old(1) findConversation_Some by blast
    then show ?thesis using old by (simp add: summaryOf_def)
  qed
qed


lemma createMessage_returns:
  "\<not> throwInThisEnvironment en \<or> pm_attachments mail = [] \<Longrightarrow>
     snd (createMessageAndProcessAttachments en gse mail sender html cleaned gid tid conv staffUser s) =
       Inr (insertedMessage
              (newEmailValues en mail sender html cleaned gid tid (c_id conv) staffUser (clock s)) s)"
proof -
  assume a: "\<not> throwInThisEnvironment en \<or> pm_attachments mail = []"
  have p: "snd (processGmailAttachments en as t) \<noteq> None \<Longrightarrow> throwInThisEnvironment en \<and> as \<noteq> []"
    for as t
    by (rule processGmailAttachments_rejects)
  show ?thesis
  proof (cases "snd (processGmailAttachments en (pm_attachments mail)
      (assignFromCc en gse (map_option addressesToString (pm_cc mail)) staffUser (c_id conv)
         (fst (createConversationMessage en
            (newEmailValues en mail sender html cleaned gid tid (c_id conv) staffUser (clock s)) s))))")
    case None
    then show ?thesis
      by (simp add: createMessageAndProcessAttachments_def Let_def case_prod_beta
          createConversationMessage_message)
  next
    case (Some x)
    with p a have False by fastforce
    then show ?thesis ..
  qed
qed

lemma resolve_reopenDb:
  "resolveConversation exampleEnv mb exampleSender exampleMail False ''m6'' ''t5'' reopenDb =
     (reopenDb, summaryOf (conversationRow 1 Closed False None))"
  "resolveConversation exampleEnv mb exampleSender exampleMail False ''m3'' ''t1'' reopenDb =
     (reopenDb, summaryOf (conversationRow 2 Closed True None))"
  by (simp_all add: resolveConversation_def isNewThread_def previousEmail_def latest_def newer_def
      findConversation_def reopenDb_def threadDb_sel row_sel)

text \<open>
  C3. After the conversation is resolved and the message is persisted, the conversation's
  row is open if the resolved conversation was closed, was not AI-assigned or the mailbox's
  auto-respond mode is draft, and the message is not ignored; it stays closed if the
  resolved conversation was closed and AI-assigned and the mode is reply; and whenever the
  condition fails the row keeps the status of the resolved conversation.
\<close>

theorem reopen_rule:
  assumes res: "resolveConversation en mailbox sender mail ig gid tid s1 = (s2, conv)"
    and cre: "createMessageAndProcessAttachments en gse mail sender html cleaned gid tid conv
                staffUser s2 = (s3, Inr newEmail)"
    and fin: "completeIngestion mailbox conv newEmail ig isAuto gid tid s3 = (s4, entry)"
  shows "\<exists>row. findConversation (c_id conv) s4 = Some row \<and>
     (c_status conv = Closed \<and>
      (\<not> assignedToAI conv \<or> autoRespondMode mailbox = Some RespondDraft) \<and> \<not> ig
        \<longrightarrow> c_status row = Open) \<and>
     (c_status conv = Closed \<and> assignedToAI conv \<and> autoRespondMode mailbox = Some RespondReply
        \<longrightarrow> c_status row = Closed) \<and>
     (\<not> (c_status conv = Closed \<and>
         (\<not> assignedToAI conv \<or> autoRespondMode mailbox = Some RespondDraft) \<and> \<not> ig)
        \<longrightarrow> c_status row = c_status conv)"
proof -
  obtain row2 where r2: "findConversation (c_id conv) s2 = Some row2" "summaryOf row2 = conv"
    using findConversation_resolveConversation[OF res] by blast
  have st2: "c_status row2 = c_status conv" using r2(2) by (auto simp: summaryOf_def)
  have s3: "s3 = fst (createMessageAndProcessAttachments en gse mail sender html cleaned gid tid
                        conv staffUser s2)"
    using cre by simp
  have "map_option c_status (findConversation (c_id conv) s3) = Some (c_status conv)"
    unfolding s3 status_createMessage by (simp add: r2 st2)
  then obtain row3 where r3: "findConversation (c_id conv) s3 = Some row3"
      "c_status row3 = c_status conv" by auto
  have s4: "s4 = fst (completeIngestion mailbox conv newEmail ig isAuto gid tid s3)"
    using fin by simp
  have f4: "findConversation (c_id conv) s4 =
      Some (if shouldReopen mailbox conv ig then applyUpdate (upd_set openUpdate) (clock s3) row3
            else row3)"
    unfolding s4 findConversation_completeIngestion by (simp add: r3)
  show ?thesis
    unfolding f4
    by (auto simp: shouldReopen_def applyUpdate_openUpdate r3)
qed


theorem reopen_rule_witness:
  "(\<exists>s3 newEmail s4 entry row.
      createMessageAndProcessAttachments exampleEnv supportEmail exampleMail exampleSender
        ''<p>Can you help?</p>'' ''Can you help?'' ''m6'' ''t5''
        (summaryOf (conversationRow 1 Closed False None)) None reopenDb = (s3, Inr newEmail) \<and>
      completeIngestion exampleMailbox (summaryOf (conversationRow 1 Closed False None)) newEmail
        False (Some False) ''m6'' ''t5'' s3 = (s4, entry) \<and>
      findConversation 1 s4 = Some row \<and> c_status row = Open) \<and>
   (\<exists>s3 newEmail s4 entry row.
      createMessageAndProcessAttachments exampleEnv supportEmail exampleMail exampleSender
        ''<p>Can you help?</p>'' ''Can you help?'' ''m3'' ''t1''
        (summaryOf (conversationRow 2 Closed True None)) None reopenDb = (s3, Inr newEmail) \<and>
      completeIngestion exampleMailbox (summaryOf (conversationRow 2 Closed True None)) newEmail
        False (Some False) ''m3'' ''t1'' s3 = (s4, entry) \<and>
      findConversation 2 s4 = Some row \<and> c_status row = Closed) \<and>
   (\<exists>s3 newEmail s4 entry row.
      createMessageAndProcessAttachments exampleEnv supportEmail exampleMail exampleSender
        ''<p>Can you help?</p>'' ''Can you help?'' ''m3'' ''t1''
        (summaryOf (conversationRow 2 Closed True None)) None reopenDb = (s3, Inr newEmail) \<and>
      completeIngestion draftMailbox (summaryOf (conversationRow 2 Closed True None)) newEmail
        False (Some False) ''m3'' ''t1'' s3 = (s4, entry) \<and>
      findConversation 2 s4 = Some row \<and> c_status row = Open)"
proof -
  have scenario: "\<exists>s3 newEmail s4 entry row.
      createMessageAndProcessAttachments exampleEnv supportEmail exampleMail exampleSender
        ''<p>Can you help?</p>'' ''Can you help?'' g t (summaryOf (conversationRow i Closed ai None))
        None reopenDb = (s3, Inr newEmail) \<and>
      completeIngestion mb (summaryOf (conversationRow i Closed ai None)) newEmail False (Some False)
        g t s3 = (s4, entry) \<and>
      findConversation i s4 = Some row \<and>
      c_status row = (if \<not> ai \<or> autoRespondMode mb = Some RespondDraft then Open else Closed)"
    if r: "resolveConversation exampleEnv mb exampleSender exampleMail False g t reopenDb =
                (reopenDb, summaryOf (conversationRow i Closed ai None))"
    for mb g t i ai
  proof -
  let ?conv = "summaryOf (conversationRow i Closed ai None)"
  let ?c = "createMessageAndProcessAttachments exampleEnv supportEmail exampleMail exampleSender
        ''<p>Can you help?</p>'' ''Can you help?'' g t ?conv None reopenDb"
  have "pm_attachments exampleMail = []" by (simp add: exampleMail_def)
  then obtain newEmail where n: "snd ?c = Inr newEmail"
    using createMessage_returns[of exampleEnv exampleMail] by blast
  then have c: "?c = (fst ?c, Inr newEmail)" by (metis prod.collapse)
  let ?f = "completeIngestion mb ?conv newEmail False (Some False) g t (fst ?c)"
  have f: "?f = (fst ?f, snd ?f)" by simp
  have sel: "c_id ?conv = i" "c_status ?conv = Closed" "assignedToAI ?conv = ai"
    by (simp_all add: summaryOf_def row_sel)
  from reopen_rule[OF r c f] obtain row where
    row: "findConversation i (fst ?f) = Some row"
      "\<not> ai \<or> autoRespondMode mb = Some RespondDraft \<longrightarrow> c_status row = Open"
      "\<not> (\<not> ai \<or> autoRespondMode mb = Some RespondDraft) \<longrightarrow> c_status row = Closed"
    unfolding sel by auto
  then have "c_status row = (if \<not> ai \<or> autoRespondMode mb = Some RespondDraft then Open else Closed)"
    by auto
  with c f row(1) show ?thesis by blast
  qed
  have m1: "autoRespondMode exampleMailbox = Some RespondReply"
    by (simp add: autoRespondMode_def exampleMailbox_def)
  have m2: "autoRespondMode draftMailbox = Some RespondDraft"
    by (simp add: autoRespondMode_def draftMailbox_def)
  from scenario[OF resolve_reopenDb(1), of exampleMailbox]
       scenario[OF resolve_reopenDb(2), of exampleMailbox]
       scenario[OF resolve_reopenDb(2), of draftMailbox]
  show ?thesis unfolding m1 m2 by simp
qed

section \<open>The steps of the pipeline: what each touches\<close>

lemma jobs_updateConversation:
  "set_status (upd_set opts) \<noteq> Some Closed \<Longrightarrow> jobs (fst (updateConversation i opts s)) = jobs s"
  by (cases "set_status (upd_set opts)")
     (auto simp: updateConversation_def Let_def applyUpdate_def orElse_def split: option.splits)

lemma autoResponseJobs:
  "jobs (triggerEvent ConversationsAutoResponseCreate d None s) =
     jobs s @ [\<lparr>job_event = ConversationsAutoResponseCreate, job_name = ''handleAutoResponse'',
               job_data = d, job_delay = 0\<rparr>]"
  by (simp add: triggerEvent_def)

lemma jobs_completeIngestion:
  "jobs (fst (completeIngestion mailbox conv newEmail ig isAuto gid tid s)) =
     jobs s @ (if ig then []
               else [\<lparr>job_event = ConversationsAutoResponseCreate, job_name = ''handleAutoResponse'',
                      job_data = MessageIdData (m_id newEmail), job_delay = 0\<rparr>])"
  by (simp add: completeIngestion_def Let_def autoResponseJobs jobs_updateConversation
      openUpdate_def noUpdate_def)

lemma entry_completeIngestion:
  "responded (snd (completeIngestion mailbox conv newEmail ig isAuto gid tid s)) = Some (\<not> ig)"
  "r_messageId (snd (completeIngestion mailbox conv newEmail ig isAuto gid tid s)) = Some (m_id newEmail)"
  "isAutomatedResponseOrThankYou (snd (completeIngestion mailbox conv newEmail ig isAuto gid tid s)) = isAuto"
  "conversationSlug (snd (completeIngestion mailbox conv newEmail ig isAuto gid tid s)) = Some (slug conv)"
  by (simp_all add: completeIngestion_def Let_def)

lemma ingestParsed_steps:
  "ingestParsed en gse mailbox gid tid labels mail sender emailBody s =
     (let d = decisionOf en mailbox gid tid labels sender emailBody s;
          r = resolveConversation en mailbox sender mail (fst (snd d)) gid tid (fst d);
          c = createMessageAndProcessAttachments en gse mail sender
                (fst (extractAndUploadInlineImages en emailBody)) (cleanedOf en gid tid emailBody)
                gid tid (snd r) (getBasicProfileByEmail en (address sender)) (fst r)
      in case snd c of
           Inl e \<Rightarrow> (fst c, Inl e)
         | Inr newEmail \<Rightarrow>
             (fst (completeIngestion mailbox (snd r) newEmail (fst (snd d)) (snd (snd d)) gid tid (fst c)),
              Inr (snd (completeIngestion mailbox (snd r) newEmail (fst (snd d)) (snd (snd d)) gid tid
                          (fst c)))))"
  by (simp add: ingestParsed_def decisionOf_def cleanedOf_def Let_def case_prod_beta
      split: sum.splits)


lemma decideShouldIgnore_frame:
  "\<exists>errs. fst (decideShouldIgnore en mailbox staffUser isFirst labels sender cleaned s) =
     s\<lparr>captured := captured s @ errs\<rparr>"
proof (cases "cheapIgnore en staffUser isFirst labels sender")
  case True
  then have "fst (decideShouldIgnore en mailbox staffUser isFirst labels sender cleaned s) =
       s\<lparr>captured := captured s @ []\<rparr>"
    by (simp add: decideShouldIgnore_def)
  then show ?thesis by (rule exI)
next
  case False
  show ?thesis
  proof (cases "runAIQuery en mailbox cleaned")
    case (Inl e)
    with False have "fst (decideShouldIgnore en mailbox staffUser isFirst labels sender cleaned s) =
       s\<lparr>captured := captured s @ [e]\<rparr>"
      by (simp add: decideShouldIgnore_def isThankYou_fail)
    then show ?thesis by (rule exI)
  next
    case (Inr content)
    with False have "fst (decideShouldIgnore en mailbox staffUser isFirst labels sender cleaned s) =
       s\<lparr>captured := captured s @ []\<rparr>"
      by (simp add: decideShouldIgnore_def isThankYou_ok)
    then show ?thesis by (rule exI)
  qed
qed

lemma resolveConversation_frame:
  "\<exists>rows. fst (resolveConversation en mailbox sender mail ig gid tid s) =
     s\<lparr>conversations := conversations s @ rows\<rparr>"
proof -
  let ?r = "resolveConversation en mailbox sender mail ig gid tid s"
  have "?r = (fst ?r, snd ?r)" by simp
  from resolveConversation_cases[OF this] show ?thesis
  proof
    assume "createNewConversation en mailbox sender mail ig s = (fst ?r, snd ?r)"
    then have "fst (createNewConversation en mailbox sender mail ig s) = fst ?r"
      by (simp only: fst_conv)
    then have "fst ?r = s\<lparr>conversations := conversations s @
        [newConversationRow en mailbox sender mail ig s]\<rparr>"
      by (simp add: createNewConversation_eq)
    then show ?thesis by (rule exI)
  next
    assume "\<exists>(m::conversation_message) c.
        findConversation (conversationId m) s = Some c \<and> fst ?r = s \<and> snd ?r = summaryOf c"
    then have "fst ?r = s" by (elim exE conjE)
    then have "fst ?r = s\<lparr>conversations := conversations s @ []\<rparr>" by simp
    then show ?thesis by (rule exI)
  qed
qed

lemma jobs_assignFromCc: "jobs (assignFromCc en gse cc staffUser i s) = jobs s"
  by (simp add: assignFromCc_def Let_def assignBasedOnCc_def assignFirstStaff_eq
      jobs_updateConversation ccUpdate_no_status split: option.splits)

lemma messages_assignFromCc:
  "conversationMessages (assignFromCc en gse cc staffUser i s) = conversationMessages s"
  "gmailSupportEmails (assignFromCc en gse cc staffUser i s) = gmailSupportEmails s"
  by (simp_all add: assignFromCc_def Let_def assignBasedOnCc_def assignFirstStaff_eq
      updateConversation_frame split: option.splits)

lemma createMessage_effects:
  fixes s :: db
  defines "c \<equiv> \<lambda>en gse mail sender html cleaned gid tid conv staffUser s.
     createMessageAndProcessAttachments en gse mail sender html cleaned gid tid conv staffUser s"
  shows "conversationMessages (fst (c en gse mail sender html cleaned gid tid conv staffUser s)) =
      conversationMessages s @
        [insertedMessage (newEmailValues en mail sender html cleaned gid tid (c_id conv) staffUser (clock s)) s]"
    and "gmailSupportEmails (fst (c en gse mail sender html cleaned gid tid conv staffUser s)) =
      gmailSupportEmails s"
    and "jobs (fst (c en gse mail sender html cleaned gid tid conv staffUser s)) =
      jobs s @ concat (map payloadsOf (eventsToSend en
        (insertedMessage (newEmailValues en mail sender html cleaned gid tid (c_id conv) staffUser (clock s)) s)))"
proof -
  obtain errs where e: "fst (createMessageAndProcessAttachments en gse mail sender html cleaned gid tid conv staffUser s) =
     (let s2 = assignFromCc en gse (map_option addressesToString (pm_cc mail)) staffUser (c_id conv)
                 (fst (createConversationMessage en
                    (newEmailValues en mail sender html cleaned gid tid (c_id conv) staffUser (clock s)) s))
      in s2\<lparr>captured := captured s2 @ errs\<rparr>)"
    using createMessage_state by blast
  show "conversationMessages (fst (c en gse mail sender html cleaned gid tid conv staffUser s)) =
      conversationMessages s @
        [insertedMessage (newEmailValues en mail sender html cleaned gid tid (c_id conv) staffUser (clock s)) s]"
    unfolding c_def e Let_def by (simp add: messages_assignFromCc createConversationMessage_frame)
  show "gmailSupportEmails (fst (c en gse mail sender html cleaned gid tid conv staffUser s)) =
      gmailSupportEmails s"
    unfolding c_def e Let_def by (simp add: messages_assignFromCc createConversationMessage_frame)
  show "jobs (fst (c en gse mail sender html cleaned gid tid conv staffUser s)) =
      jobs s @ concat (map payloadsOf (eventsToSend en
        (insertedMessage (newEmailValues en mail sender html cleaned gid tid (c_id conv) staffUser (clock s)) s)))"
    unfolding c_def e Let_def by (simp add: jobs_assignFromCc createConversationMessage_jobs)
qed

lemma completeIngestion_frame:
  "conversationMessages (fst (completeIngestion mailbox conv newEmail ig isAuto gid tid s)) =
     conversationMessages s"
  "gmailSupportEmails (fst (completeIngestion mailbox conv newEmail ig isAuto gid tid s)) =
     gmailSupportEmails s"
  by (simp_all add: completeIngestion_def Let_def updateConversation_frame)

lemma ingestParsed_created:
  assumes "ingestParsed en gse mailbox gid tid labels mail sender emailBody s = (s', Inr entry)"
  defines "d \<equiv> decisionOf en mailbox gid tid labels sender emailBody s"
  defines "r \<equiv> resolveConversation en mailbox sender mail (fst (snd d)) gid tid (fst d)"
  defines "c \<equiv> createMessageAndProcessAttachments en gse mail sender
                (fst (extractAndUploadInlineImages en emailBody)) (cleanedOf en gid tid emailBody)
                gid tid (snd r) (getBasicProfileByEmail en (address sender)) (fst r)"
  shows "\<exists>newEmail. snd c = Inr newEmail \<and>
     s' = fst (completeIngestion mailbox (snd r) newEmail (fst (snd d)) (snd (snd d)) gid tid (fst c)) \<and>
     entry = snd (completeIngestion mailbox (snd r) newEmail (fst (snd d)) (snd (snd d)) gid tid (fst c))"
proof (cases "snd c")
  case (Inl e)
  then have "snd (ingestParsed en gse mailbox gid tid labels mail sender emailBody s) = Inl e"
    unfolding ingestParsed_steps Let_def c_def r_def d_def by simp
  with assms(1) show ?thesis by simp
next
  case (Inr newEmail)
  then have "ingestParsed en gse mailbox gid tid labels mail sender emailBody s =
     (fst (completeIngestion mailbox (snd r) newEmail (fst (snd d)) (snd (snd d)) gid tid (fst c)),
      Inr (snd (completeIngestion mailbox (snd r) newEmail (fst (snd d)) (snd (snd d)) gid tid (fst c))))"
    unfolding ingestParsed_steps Let_def c_def r_def d_def by simp
  with assms(1) Inr show ?thesis by simp
qed

lemma ingestParsed_thrown:
  assumes "ingestParsed en gse mailbox gid tid labels mail sender emailBody s = (s', Inl e)"
  shows "throwInThisEnvironment en \<and> pm_attachments mail \<noteq> []"
proof (rule ccontr)
  assume "\<not> (throwInThisEnvironment en \<and> pm_attachments mail \<noteq> [])"
  then have a: "\<not> throwInThisEnvironment en \<or> pm_attachments mail = []" by simp
  have "snd (ingestParsed en gse mailbox gid tid labels mail sender emailBody s) \<noteq> Inl e"
    unfolding ingestParsed_steps Let_def
    by (simp add: createMessage_returns[OF a])
  with assms show False by simp
qed

lemma ingestMessage_cases:
  "ingestMessage en gse mailbox gid tid labels s =
     (case getMessageById en gid of
        Inl e \<Rightarrow> (s, Inl e)
      | Inr mail \<Rightarrow>
          (case getParsedEmailInfo en mail of
             Inl e \<Rightarrow> (s, Inl e)
           | Inr p \<Rightarrow>
               if address (fst p) = email gse
               then (s, Inr (skipped (''Skipped - message '' @ gid @ '' sent from mailbox'')
                               (Some gid) (Some tid)))
               else ingestParsed en gse mailbox gid tid labels mail (fst p) (snd p) s))"
  by (simp add: ingestMessage_def case_prod_beta split: sum.splits)

lemma skipped_sel:
  "r_messageId (skipped t g h) = None" "responded (skipped t g h) = None"
  "r_message (skipped t g h) = t" "r_gmailMessageId (skipped t g h) = g"
  "r_gmailThreadId (skipped t g h) = h"
  by (simp_all add: skipped_def)

lemma ingestMessage_created:
  assumes "ingestMessage en gse mailbox gid tid labels s = (s', Inr entry)"
    and "r_messageId entry \<noteq> None"
  shows "\<exists>mail sender emailBody. getMessageById en gid = Inr mail \<and>
     getParsedEmailInfo en mail = Inr (sender, emailBody) \<and> address sender \<noteq> email gse \<and>
     ingestParsed en gse mailbox gid tid labels mail sender emailBody s = (s', Inr entry)"
proof (cases "getMessageById en gid")
  case (Inl e)
  with assms show ?thesis by (simp add: ingestMessage_cases)
next
  case mail: (Inr mail)
  show ?thesis
  proof (cases "getParsedEmailInfo en mail")
    case (Inl e)
    with assms mail show ?thesis by (simp add: ingestMessage_cases)
  next
    case (Inr p)
    obtain sender emailBody where p: "p = (sender, emailBody)" by (cases p)
    show ?thesis
    proof (cases "address sender = email gse")
      case True
      with assms mail Inr p have "entry = skipped (''Skipped - message '' @ gid @ '' sent from mailbox'')
                               (Some gid) (Some tid)"
        by (simp add: ingestMessage_cases)
      with assms(2) show ?thesis by (simp add: skipped_sel)
    next
      case False
      with assms mail Inr p have "ingestParsed en gse mailbox gid tid labels mail sender emailBody s =
         (s', Inr entry)" by (simp add: ingestMessage_cases)
      with mail Inr p False show ?thesis by simp
    qed
  qed
qed

lemma decide_sel:
  "conversationMessages (fst (decideShouldIgnore en mailbox staffUser isFirst labels sender cleaned s)) =
     conversationMessages s"
  "gmailSupportEmails (fst (decideShouldIgnore en mailbox staffUser isFirst labels sender cleaned s)) =
     gmailSupportEmails s"
  "jobs (fst (decideShouldIgnore en mailbox staffUser isFirst labels sender cleaned s)) = jobs s"
  "conversations (fst (decideShouldIgnore en mailbox staffUser isFirst labels sender cleaned s)) =
     conversations s"
  "clock (fst (decideShouldIgnore en mailbox staffUser isFirst labels sender cleaned s)) = clock s"
proof -
  obtain errs where e: "fst (decideShouldIgnore en mailbox staffUser isFirst labels sender cleaned s) =
     s\<lparr>captured := captured s @ errs\<rparr>"
    using decideShouldIgnore_frame by blast
  show "conversationMessages (fst (decideShouldIgnore en mailbox staffUser isFirst labels sender cleaned s)) =
     conversationMessages s"
    "gmailSupportEmails (fst (decideShouldIgnore en mailbox staffUser isFirst labels sender cleaned s)) =
     gmailSupportEmails s"
    "jobs (fst (decideShouldIgnore en mailbox staffUser isFirst labels sender cleaned s)) = jobs s"
    "conversations (fst (decideShouldIgnore en mailbox staffUser isFirst labels sender cleaned s)) =
     conversations s"
    "clock (fst (decideShouldIgnore en mailbox staffUser isFirst labels sender cleaned s)) = clock s"
    unfolding e by simp_all
qed

lemma resolve_sel:
  "conversationMessages (fst (resolveConversation en mailbox sender mail ig gid tid s)) =
     conversationMessages s"
  "gmailSupportEmails (fst (resolveConversation en mailbox sender mail ig gid tid s)) =
     gmailSupportEmails s"
  "jobs (fst (resolveConversation en mailbox sender mail ig gid tid s)) = jobs s"
  "clock (fst (resolveConversation en mailbox sender mail ig gid tid s)) = clock s"
proof -
  obtain rows where e: "fst (resolveConversation en mailbox sender mail ig gid tid s) =
     s\<lparr>conversations := conversations s @ rows\<rparr>"
    using resolveConversation_frame by blast
  show "conversationMessages (fst (resolveConversation en mailbox sender mail ig gid tid s)) =
     conversationMessages s"
    "gmailSupportEmails (fst (resolveConversation en mailbox sender mail ig gid tid s)) =
     gmailSupportEmails s"
    "jobs (fst (resolveConversation en mailbox sender mail ig gid tid s)) = jobs s"
    "clock (fst (resolveConversation en mailbox sender mail ig gid tid s)) = clock s"
    unfolding e by simp_all
qed

lemma decisionOf_sel:
  "conversationMessages (fst (decisionOf en mailbox gid tid labels sender emailBody s)) =
     conversationMessages s"
  "gmailSupportEmails (fst (decisionOf en mailbox gid tid labels sender emailBody s)) =
     gmailSupportEmails s"
  "jobs (fst (decisionOf en mailbox gid tid labels sender emailBody s)) = jobs s"
  by (simp_all add: decisionOf_def decide_sel)

lemma ingestedMessage_sel:
  "gmailMessageId (ingestedMessage en mailbox gid tid labels mail sender emailBody s) = Some gid"
  "gmailThreadId (ingestedMessage en mailbox gid tid labels mail sender emailBody s) = Some tid"
  "m_id (ingestedMessage en mailbox gid tid labels mail sender emailBody s) =
     freshId (map m_id (conversationMessages s))"
  by (simp_all add: ingestedMessage_def Let_def insertedMessage_def newEmailValues_def
      resolve_sel decisionOf_sel)

lemma ingestParsed_effects:
  "conversationMessages (fst (ingestParsed en gse mailbox gid tid labels mail sender emailBody s)) =
     conversationMessages s @ [ingestedMessage en mailbox gid tid labels mail sender emailBody s]"
  "gmailSupportEmails (fst (ingestParsed en gse mailbox gid tid labels mail sender emailBody s)) =
     gmailSupportEmails s"
proof -
  let ?d = "decisionOf en mailbox gid tid labels sender emailBody s"
  let ?r = "resolveConversation en mailbox sender mail (fst (snd ?d)) gid tid (fst ?d)"
  let ?c = "createMessageAndProcessAttachments en gse mail sender
                (fst (extractAndUploadInlineImages en emailBody)) (cleanedOf en gid tid emailBody)
                gid tid (snd ?r) (getBasicProfileByEmail en (address sender)) (fst ?r)"
  have m: "conversationMessages (fst ?c) =
      conversationMessages s @ [ingestedMessage en mailbox gid tid labels mail sender emailBody s]"
    by (simp add: createMessage_effects resolve_sel decisionOf_sel ingestedMessage_def Let_def)
  have g: "gmailSupportEmails (fst ?c) = gmailSupportEmails s"
    by (simp add: createMessage_effects resolve_sel decisionOf_sel)
  show "conversationMessages (fst (ingestParsed en gse mailbox gid tid labels mail sender emailBody s)) =
     conversationMessages s @ [ingestedMessage en mailbox gid tid labels mail sender emailBody s]"
    unfolding ingestParsed_steps Let_def
    by (cases "snd ?c") (simp_all add: m completeIngestion_frame)
  show "gmailSupportEmails (fst (ingestParsed en gse mailbox gid tid labels mail sender emailBody s)) =
     gmailSupportEmails s"
    unfolding ingestParsed_steps Let_def
    by (cases "snd ?c") (simp_all add: g completeIngestion_frame)
qed

section \<open>One turn of the loop\<close>

lemma processMessage_eq:
  "processMessage en gse mailbox msg s =
     (if \<not> hasIds msg
      then (s, Inr (skipped ''Skipped - missing message ID or thread ID'' (idOf msg) (threadIdOf msg)))
      else if existingEmail (gidOf msg) s \<noteq> None
      then (s, Inr (alreadyExists (gidOf msg) (tidOf msg)))
      else catchIngestion en (gidOf msg) (tidOf msg)
             (ingestMessage en gse mailbox (gidOf msg) (tidOf msg) (labelIdsOf msg) s))"
  by (simp add: processMessage_def)

lemma catchIngestion_Inr:
  "catchIngestion en gid tid (s1, Inr entry) = (s1, Inr entry)"
  by (simp add: catchIngestion_def)

lemma catchIngestion_Inl:
  "catchIngestion en gid tid (s1, Inl e) =
     (s1\<lparr>captured := captured s1 @ [e]\<rparr>,
      if throwInThisEnvironment en then Inl e else Inr (errorEntry gid tid e))"
  by (simp add: catchIngestion_def captureExceptionAndThrowIfDevelopment_def
      captureExceptionAndLog_def)

lemma catchIngestion_created:
  assumes "catchIngestion en gid tid tried = (s', Inr entry)" "r_messageId entry \<noteq> None"
  shows "tried = (s', Inr entry)"
proof (cases tried)
  case (Pair s1 out)
  show ?thesis
  proof (cases out)
    case (Inl e)
    with assms Pair show ?thesis
      by (auto simp: catchIngestion_Inl skipped_sel errorEntry_def split: if_splits)
  next
    case (Inr x)
    with assms Pair show ?thesis by (simp add: catchIngestion_Inr)
  qed
qed

lemma processMessage_created:
  assumes "processMessage en gse mailbox msg s = (s', Inr entry)" "r_messageId entry \<noteq> None"
  shows "hasIds msg \<and> existingEmail (gidOf msg) s = None \<and>
     ingestMessage en gse mailbox (gidOf msg) (tidOf msg) (labelIdsOf msg) s = (s', Inr entry)"
proof -
  have 1: "hasIds msg"
  proof (rule ccontr)
    assume "\<not> hasIds msg"
    with assms show False by (auto simp: processMessage_eq skipped_sel)
  qed
  have 2: "existingEmail (gidOf msg) s = None"
  proof (rule ccontr)
    assume "existingEmail (gidOf msg) s \<noteq> None"
    with assms 1 show False by (auto simp: processMessage_eq skipped_sel alreadyExists_def)
  qed
  from assms(1) 1 2 have "catchIngestion en (gidOf msg) (tidOf msg)
             (ingestMessage en gse mailbox (gidOf msg) (tidOf msg) (labelIdsOf msg) s) = (s', Inr entry)"
    by (simp add: processMessage_eq)
  from catchIngestion_created[OF this assms(2)] 1 2 show ?thesis by simp
qed

lemma existingEmail_iff:
  "existingEmail gid s \<noteq> None \<longleftrightarrow> (\<exists>m \<in> set (conversationMessages s). gmailMessageId m = Some gid)"
  by (auto simp: existingEmail_def find_None_iff)

lemma persisted_Nil: "persisted gid s = [] \<longleftrightarrow> existingEmail gid s = None"
  using existingEmail_iff[of gid s] by (auto simp: persisted_def filter_empty_conv)

lemma getParsedEmailInfo_Some:
  "parseEmailAddress en (orElse (pm_from mail) []) = Some sender \<Longrightarrow>
     getParsedEmailInfo en mail = Inr (sender, parseEmailBody en mail)"
  by (simp add: getParsedEmailInfo_def)

lemma processMessage_happy:
  assumes ids: "hasIds msg" and new: "existingEmail (gidOf msg) s = None"
    and mail: "getMessageById en (gidOf msg) = Inr mail"
    and sender: "parseEmailAddress en (orElse (pm_from mail) []) = Some sender"
    and other: "address sender \<noteq> email gse"
    and quiet: "\<not> throwInThisEnvironment en \<or> pm_attachments mail = []"
  shows "\<exists>s' entry. processMessage en gse mailbox msg s = (s', Inr entry) \<and>
      r_messageId entry = Some (freshId (map m_id (conversationMessages s))) \<and>
      responded entry =
        Some (\<not> fst (snd (decisionOf en mailbox (gidOf msg) (tidOf msg) (labelIdsOf msg) sender
                            (parseEmailBody en mail) s)))"
proof -
  let ?gid = "gidOf msg" and ?tid = "tidOf msg" and ?l = "labelIdsOf msg"
  let ?body = "parseEmailBody en mail"
  let ?d = "decisionOf en mailbox ?gid ?tid ?l sender ?body s"
  let ?r = "resolveConversation en mailbox sender mail (fst (snd ?d)) ?gid ?tid (fst ?d)"
  let ?html = "fst (extractAndUploadInlineImages en ?body)"
  let ?cl = "cleanedOf en ?gid ?tid ?body"
  let ?st = "getBasicProfileByEmail en (address sender)"
  let ?c = "createMessageAndProcessAttachments en gse mail sender ?html ?cl ?gid ?tid (snd ?r) ?st (fst ?r)"
  let ?m = "insertedMessage (newEmailValues en mail sender ?html ?cl ?gid ?tid (c_id (snd ?r)) ?st
                (clock (fst ?r))) (fst ?r)"
  let ?f = "completeIngestion mailbox (snd ?r) ?m (fst (snd ?d)) (snd (snd ?d)) ?gid ?tid (fst ?c)"
  have c: "snd ?c = Inr ?m" by (rule createMessage_returns[OF quiet])
  have ip: "ingestParsed en gse mailbox ?gid ?tid ?l mail sender ?body s = (fst ?f, Inr (snd ?f))"
    unfolding ingestParsed_steps Let_def by (simp add: c)
  have im: "ingestMessage en gse mailbox ?gid ?tid ?l s = (fst ?f, Inr (snd ?f))"
    by (simp add: ingestMessage_cases mail getParsedEmailInfo_Some[OF sender] other ip)
  have pm: "processMessage en gse mailbox msg s = (fst ?f, Inr (snd ?f))"
    by (simp add: processMessage_eq ids new im catchIngestion_Inr)
  have id: "m_id ?m = freshId (map m_id (conversationMessages s))"
    by (simp add: insertedMessage_def resolve_sel decisionOf_sel)
  show ?thesis
    using pm id by (simp add: entry_completeIngestion)
qed


lemma msg_sel:
  "hasIds firstMessage" "gidOf firstMessage = ''m1''" "tidOf firstMessage = ''m1''"
  "hasIds redelivered" "gidOf redelivered = ''m2''" "tidOf redelivered = ''t1''"
  "hasIds goneMessage" "gidOf goneMessage = ''gone''" "tidOf goneMessage = ''gone''"
  by (simp_all add: firstMessage_def redelivered_def goneMessage_def hasIds_def gidOf_def tidOf_def
      idOf_def threadIdOf_def truthy_def orElse_def)

lemma inboxEnv_sel:
  "getMessageById inboxEnv ''m1'' = Inr exampleMail"
  "getMessageById inboxEnv ''gone'' = Inl (RequestFailed ''Not Found'')"
  "parseEmailAddress inboxEnv (orElse (pm_from exampleMail) []) = Some exampleSender"
  "\<not> throwInThisEnvironment inboxEnv"
  by (simp_all add: inboxEnv_def exampleEnv_def exampleMail_def exampleSender_def orElse_def)

lemma processMessages_step:
  assumes "processMessage en gse mailbox msg s = (s1, Inr entry)"
    and "processMessages en gse mailbox rest s1 = (s2, Inr entries)"
  shows "processMessages en gse mailbox (msg # rest) s = (s2, Inr (entry # entries))"
  using assms by simp

section \<open>Deduplication\<close>

lemma processMessage_persists:
  assumes "processMessage en gse mailbox msg s = (s1, Inr entry)" "r_messageId entry \<noteq> None"
  shows "hasIds msg \<and> persisted (gidOf msg) s = [] \<and> length (persisted (gidOf msg) s1) = 1"
proof -
  from processMessage_created[OF assms]
  have h: "hasIds msg" "existingEmail (gidOf msg) s = None"
    "ingestMessage en gse mailbox (gidOf msg) (tidOf msg) (labelIdsOf msg) s = (s1, Inr entry)"
    by simp_all
  from ingestMessage_created[OF h(3) assms(2)] obtain mail sender emailBody where
    p: "ingestParsed en gse mailbox (gidOf msg) (tidOf msg) (labelIdsOf msg) mail sender emailBody s =
          (s1, Inr entry)"
    by blast
  have s1: "s1 = fst (ingestParsed en gse mailbox (gidOf msg) (tidOf msg) (labelIdsOf msg) mail sender
                        emailBody s)"
    using p by simp
  have e0: "persisted (gidOf msg) s = []" using h(2) by (simp add: persisted_Nil)
  have e1: "persisted (gidOf msg) s1 =
      [ingestedMessage en mailbox (gidOf msg) (tidOf msg) (labelIdsOf msg) mail sender emailBody s]"
    using e0 unfolding s1 by (simp add: persisted_def ingestParsed_effects ingestedMessage_sel)
  from h(1) e0 e1 show ?thesis by simp
qed

lemma processMessage_alreadyExists:
  assumes "hasIds msg" "persisted (gidOf msg) s \<noteq> []"
  shows "processMessage en gse mailbox msg s =
     (s, Inr \<lparr>r_message = ''Skipped - message '' @ gidOf msg @ '' already exists'', responded = None,
              isAutomatedResponseOrThankYou = None, r_gmailMessageId = Some (gidOf msg),
              r_gmailThreadId = Some (tidOf msg), r_messageId = None, conversationSlug = None\<rparr>)"
  using assms by (simp add: processMessage_eq persisted_Nil alreadyExists_def skipped_def)

lemma processMessage_missing:
  assumes "\<not> hasIds msg"
  shows "processMessage en gse mailbox msg s =
     (s, Inr \<lparr>r_message = ''Skipped - missing message ID or thread ID'', responded = None,
              isAutomatedResponseOrThankYou = None, r_gmailMessageId = idOf msg,
              r_gmailThreadId = threadIdOf msg, r_messageId = None, conversationSlug = None\<rparr>)"
  using assms by (simp add: processMessage_eq skipped_def)

lemma reference_sel:
  "idOf (Some \<lparr>gm_id = g, threadId = t, labelIds = ls\<rparr>) = g"
  "threadIdOf (Some \<lparr>gm_id = g, threadId = t, labelIds = ls\<rparr>) = t"
  "hasIds (Some \<lparr>gm_id = g, threadId = t, labelIds = ls\<rparr>) = (truthy g \<and> truthy t)"
  "gidOf (Some \<lparr>gm_id = Some a, threadId = t, labelIds = ls\<rparr>) = a"
  "tidOf (Some \<lparr>gm_id = g, threadId = Some b, labelIds = ls\<rparr>) = b"
  by (simp_all add: idOf_def threadIdOf_def hasIds_def gidOf_def tidOf_def orElse_def)

text \<open>
  C1, as the code has it. A message reference that carries a message id and a thread id
  (neither empty) and whose message id already has a stored message changes nothing and
  yields the entry "Skipped - message <id> already exists" with the two ids. A reference
  whose message id has a stored message but whose thread id is missing or empty changes
  nothing either, and its entry is "Skipped - missing message ID or thread ID": the test
  of lines 231-238 comes before the lookup. And when a turn of the loop has persisted a
  message (its entry carries a message id), no message with that Gmail id was stored before,
  exactly one is stored after, and the loop over the same reference twice ends in the state
  of the first turn, with that one message, the entry of the first turn and the entry
  "already exists".
\<close>

theorem dedup_idempotent:
  "(persisted g s \<noteq> [] \<and> g \<noteq> [] \<and> t \<noteq> [] \<longrightarrow>
      processMessage en gse mailbox (Some \<lparr>gm_id = Some g, threadId = Some t, labelIds = ls\<rparr>) s =
        (s, Inr \<lparr>r_message = ''Skipped - message '' @ g @ '' already exists'', responded = None,
                 isAutomatedResponseOrThankYou = None, r_gmailMessageId = Some g,
                 r_gmailThreadId = Some t, r_messageId = None, conversationSlug = None\<rparr>)) \<and>
   (persisted g s \<noteq> [] \<and> (th = None \<or> th = Some []) \<longrightarrow>
      processMessage en gse mailbox (Some \<lparr>gm_id = Some g, threadId = th, labelIds = ls\<rparr>) s =
        (s, Inr \<lparr>r_message = ''Skipped - missing message ID or thread ID'', responded = None,
                 isAutomatedResponseOrThankYou = None, r_gmailMessageId = Some g,
                 r_gmailThreadId = th, r_messageId = None, conversationSlug = None\<rparr>)) \<and>
   (processMessage en gse mailbox msg s = (s1, Inr entry) \<and> r_messageId entry \<noteq> None \<longrightarrow>
      persisted (gidOf msg) s = [] \<and> length (persisted (gidOf msg) s1) = 1 \<and>
      processMessages en gse mailbox [msg, msg] s =
        (s1, Inr [entry,
                  \<lparr>r_message = ''Skipped - message '' @ gidOf msg @ '' already exists'',
                   responded = None, isAutomatedResponseOrThankYou = None,
                   r_gmailMessageId = idOf msg, r_gmailThreadId = threadIdOf msg,
                   r_messageId = None, conversationSlug = None\<rparr>]))"
proof (intro conjI impI)
  let ?msg = "Some \<lparr>gm_id = Some g, threadId = Some t, labelIds = ls\<rparr>"
  assume a: "persisted g s \<noteq> [] \<and> g \<noteq> [] \<and> t \<noteq> []"
  then have "hasIds ?msg" "persisted (gidOf ?msg) s \<noteq> []"
    by (simp_all add: reference_sel truthy_def)
  from processMessage_alreadyExists[OF this]
  show "processMessage en gse mailbox ?msg s =
        (s, Inr \<lparr>r_message = ''Skipped - message '' @ g @ '' already exists'', responded = None,
                 isAutomatedResponseOrThankYou = None, r_gmailMessageId = Some g,
                 r_gmailThreadId = Some t, r_messageId = None, conversationSlug = None\<rparr>)"
    by (simp add: reference_sel)
next
  let ?msg = "Some \<lparr>gm_id = Some g, threadId = th, labelIds = ls\<rparr>"
  assume "persisted g s \<noteq> [] \<and> (th = None \<or> th = Some [])"
  then have "\<not> hasIds ?msg" by (auto simp: reference_sel truthy_def)
  from processMessage_missing[OF this]
  show "processMessage en gse mailbox ?msg s =
        (s, Inr \<lparr>r_message = ''Skipped - missing message ID or thread ID'', responded = None,
                 isAutomatedResponseOrThankYou = None, r_gmailMessageId = Some g,
                 r_gmailThreadId = th, r_messageId = None, conversationSlug = None\<rparr>)"
    by (simp add: reference_sel)
next
  assume a: "processMessage en gse mailbox msg s = (s1, Inr entry) \<and> r_messageId entry \<noteq> None"
  from processMessage_persists[of en gse mailbox msg s s1 entry] a
  have h: "hasIds msg" "persisted (gidOf msg) s = []" "length (persisted (gidOf msg) s1) = 1"
    by simp_all
  from h(2) show "persisted (gidOf msg) s = []" .
  from h(3) show "length (persisted (gidOf msg) s1) = 1" .
  from h(3) have ne: "persisted (gidOf msg) s1 \<noteq> []" by auto
  have ids: "idOf msg = Some (gidOf msg)" "threadIdOf msg = Some (tidOf msg)"
    using h(1) by (auto simp: hasIds_def truthy_def gidOf_def tidOf_def orElse_def split: option.splits)
  have 2: "processMessages en gse mailbox [msg] s1 =
      (s1, Inr [\<lparr>r_message = ''Skipped - message '' @ gidOf msg @ '' already exists'',
                   responded = None, isAutomatedResponseOrThankYou = None,
                   r_gmailMessageId = idOf msg, r_gmailThreadId = threadIdOf msg,
                   r_messageId = None, conversationSlug = None\<rparr>])"
    by (simp add: processMessage_alreadyExists[OF h(1) ne] ids)
  from a have 1: "processMessage en gse mailbox msg s = (s1, Inr entry)" by simp
  from processMessages_step[OF 1 2]
  show "processMessages en gse mailbox [msg, msg] s =
        (s1, Inr [entry,
                  \<lparr>r_message = ''Skipped - message '' @ gidOf msg @ '' already exists'',
                   responded = None, isAutomatedResponseOrThankYou = None,
                   r_gmailMessageId = idOf msg, r_gmailThreadId = threadIdOf msg,
                   r_messageId = None, conversationSlug = None\<rparr>])" .
qed

theorem dedup_idempotent_witness:
  "processMessage inboxEnv supportEmail exampleMailbox redelivered threadDb =
     (threadDb, Inr \<lparr>r_message = ''Skipped - message m2 already exists'', responded = None,
                     isAutomatedResponseOrThankYou = None, r_gmailMessageId = Some ''m2'',
                     r_gmailThreadId = Some ''t1'', r_messageId = None, conversationSlug = None\<rparr>) \<and>
   processMessage inboxEnv supportEmail exampleMailbox unthreaded threadDb =
     (threadDb, Inr \<lparr>r_message = ''Skipped - missing message ID or thread ID'', responded = None,
                     isAutomatedResponseOrThankYou = None, r_gmailMessageId = Some ''m2'',
                     r_gmailThreadId = None, r_messageId = None, conversationSlug = None\<rparr>) \<and>
   (\<exists>s1 entry. processMessage inboxEnv supportEmail exampleMailbox firstMessage emptyDb = (s1, Inr entry) \<and>
      r_messageId entry = Some 1 \<and> length (persisted ''m1'' s1) = 1 \<and>
      processMessages inboxEnv supportEmail exampleMailbox [firstMessage, firstMessage] emptyDb =
        (s1, Inr [entry,
                  \<lparr>r_message = ''Skipped - message m1 already exists'', responded = None,
                   isAutomatedResponseOrThankYou = None, r_gmailMessageId = Some ''m1'',
                   r_gmailThreadId = Some ''m1'', r_messageId = None, conversationSlug = None\<rparr>]))"
proof -
  have p: "persisted ''m2'' threadDb \<noteq> []"
    by (simp add: persisted_def threadDb_sel row_sel)
  have 1: "processMessage inboxEnv supportEmail exampleMailbox redelivered threadDb =
     (threadDb, Inr \<lparr>r_message = ''Skipped - message m2 already exists'', responded = None,
                     isAutomatedResponseOrThankYou = None, r_gmailMessageId = Some ''m2'',
                     r_gmailThreadId = Some ''t1'', r_messageId = None, conversationSlug = None\<rparr>)"
    using dedup_idempotent[where g="''m2''" and t="''t1''" and ls=None and s=threadDb and en=inboxEnv
        and gse=supportEmail and mailbox=exampleMailbox, THEN conjunct1] p
    by (simp add: redelivered_def)
  have 2: "processMessage inboxEnv supportEmail exampleMailbox unthreaded threadDb =
     (threadDb, Inr \<lparr>r_message = ''Skipped - missing message ID or thread ID'', responded = None,
                     isAutomatedResponseOrThankYou = None, r_gmailMessageId = Some ''m2'',
                     r_gmailThreadId = None, r_messageId = None, conversationSlug = None\<rparr>)"
    using dedup_idempotent[where g="''m2''" and th=None and ls=None and s=threadDb and en=inboxEnv
        and gse=supportEmail and mailbox=exampleMailbox, THEN conjunct2, THEN conjunct1] p
    by (simp add: unthreaded_def)
  have n: "existingEmail (gidOf firstMessage) emptyDb = None"
    by (simp add: existingEmail_def emptyDb_def)
  have o: "address exampleSender \<noteq> email supportEmail"
    by (simp add: exampleSender_def supportEmail_def)
  obtain s1 entry where h: "processMessage inboxEnv supportEmail exampleMailbox firstMessage emptyDb =
      (s1, Inr entry)" "r_messageId entry = Some (freshId (map m_id (conversationMessages emptyDb)))"
    using processMessage_happy[where msg=firstMessage and s=emptyDb and en=inboxEnv
        and mail=exampleMail and sender=exampleSender and gse=supportEmail and mailbox=exampleMailbox]
      msg_sel(1) n inboxEnv_sel o
    by (auto simp: msg_sel)
  have i: "r_messageId entry = Some 1" using h(2) by (simp add: emptyDb_def freshId_def)
  have f: "idOf firstMessage = Some ''m1''" "threadIdOf firstMessage = Some ''m1''"
    by (simp_all add: firstMessage_def reference_sel)
  from dedup_idempotent[where msg=firstMessage and s=emptyDb and en=inboxEnv and gse=supportEmail
        and mailbox=exampleMailbox and ?s1.0=s1 and entry=entry, THEN conjunct2, THEN conjunct2] h(1) i
  have "length (persisted ''m1'' s1) = 1 \<and>
      processMessages inboxEnv supportEmail exampleMailbox [firstMessage, firstMessage] emptyDb =
        (s1, Inr [entry,
                  \<lparr>r_message = ''Skipped - message m1 already exists'', responded = None,
                   isAutomatedResponseOrThankYou = None, r_gmailMessageId = Some ''m1'',
                   r_gmailThreadId = Some ''m1'', r_messageId = None, conversationSlug = None\<rparr>])"
    by (simp add: msg_sel f)
  with h(1) i have 3: "\<exists>s1 entry.
      processMessage inboxEnv supportEmail exampleMailbox firstMessage emptyDb = (s1, Inr entry) \<and>
      r_messageId entry = Some 1 \<and> length (persisted ''m1'' s1) = 1 \<and>
      processMessages inboxEnv supportEmail exampleMailbox [firstMessage, firstMessage] emptyDb =
        (s1, Inr [entry,
                  \<lparr>r_message = ''Skipped - message m1 already exists'', responded = None,
                   isAutomatedResponseOrThankYou = None, r_gmailMessageId = Some ''m1'',
                   r_gmailThreadId = Some ''m1'', r_messageId = None, conversationSlug = None\<rparr>])"
    by blast
  from 1 2 3 show ?thesis by (intro conjI)
qed

text \<open>
  The claim as written fails for a reference whose message id is stored and whose thread id
  is missing: the result does not say that the message already exists.
\<close>

theorem dedup_idempotent_counterexample:
  "persisted ''m2'' threadDb \<noteq> [] \<and>
   idOf unthreaded = Some ''m2'' \<and>
   processMessage inboxEnv supportEmail exampleMailbox unthreaded threadDb =
     (threadDb, Inr \<lparr>r_message = ''Skipped - missing message ID or thread ID'', responded = None,
                     isAutomatedResponseOrThankYou = None, r_gmailMessageId = Some ''m2'',
                     r_gmailThreadId = None, r_messageId = None, conversationSlug = None\<rparr>) \<and>
   ''Skipped - missing message ID or thread ID'' \<noteq> ''Skipped - message m2 already exists''"
  by (simp add: persisted_def threadDb_sel row_sel unthreaded_def reference_sel processMessage_eq
      truthy_def skipped_def)

section \<open>The auto-response event\<close>

lemma enqueued_append: "jobs s' = jobs s @ js \<Longrightarrow> enqueued s s' = js"
  by (simp add: enqueued_def)

lemma eventsToSend_not_autoResponse:
  "e \<in> set (eventsToSend en m) \<Longrightarrow> pe_name e \<noteq> ConversationsAutoResponseCreate"
proof -
  assume "e \<in> set (eventsToSend en m)"
  then have "pe_name e \<in> set (map pe_name (eventsToSend en m))" by simp
  then show ?thesis unfolding names_eventsToSend by (auto split: if_splits)
qed

lemma payloads_not_autoResponse:
  "j \<in> set (concat (map payloadsOf (eventsToSend en m))) \<Longrightarrow>
     job_event j \<noteq> ConversationsAutoResponseCreate"
proof -
  assume "j \<in> set (concat (map payloadsOf (eventsToSend en m)))"
  then obtain e where e: "e \<in> set (eventsToSend en m)" "j \<in> set (payloadsOf e)" by auto
  from payloadsOf_event[OF e(2)] eventsToSend_not_autoResponse[OF e(1)] show ?thesis by simp
qed

lemma jobs_ingestParsed_created:
  assumes "ingestParsed en gse mailbox gid tid labels mail sender emailBody s = (s', Inr entry)"
  shows "\<exists>js mid. jobs s' = jobs s @ js @
        (if fst (snd (decisionOf en mailbox gid tid labels sender emailBody s)) then []
         else [autoResponseJob mid]) \<and>
      (\<forall>j \<in> set js. job_event j \<noteq> ConversationsAutoResponseCreate) \<and>
      r_messageId entry = Some mid \<and>
      responded entry = Some (\<not> fst (snd (decisionOf en mailbox gid tid labels sender emailBody s)))"
proof -
  let ?d = "decisionOf en mailbox gid tid labels sender emailBody s"
  let ?r = "resolveConversation en mailbox sender mail (fst (snd ?d)) gid tid (fst ?d)"
  let ?c = "createMessageAndProcessAttachments en gse mail sender
                (fst (extractAndUploadInlineImages en emailBody)) (cleanedOf en gid tid emailBody)
                gid tid (snd ?r) (getBasicProfileByEmail en (address sender)) (fst ?r)"
  let ?m = "insertedMessage (newEmailValues en mail sender (fst (extractAndUploadInlineImages en emailBody))
                (cleanedOf en gid tid emailBody) gid tid (c_id (snd ?r))
                (getBasicProfileByEmail en (address sender)) (clock (fst ?r))) (fst ?r)"
  let ?js = "concat (map payloadsOf (eventsToSend en ?m))"
  from ingestParsed_created[OF assms] obtain newEmail where
    n: "snd ?c = Inr newEmail"
       "s' = fst (completeIngestion mailbox (snd ?r) newEmail (fst (snd ?d)) (snd (snd ?d)) gid tid (fst ?c))"
       "entry = snd (completeIngestion mailbox (snd ?r) newEmail (fst (snd ?d)) (snd (snd ?d)) gid tid (fst ?c))"
    by blast
  have jc: "jobs (fst ?c) = jobs s @ ?js"
    by (simp add: createMessage_effects resolve_sel decisionOf_sel)
  have j: "jobs s' = jobs s @ ?js @ (if fst (snd ?d) then [] else [autoResponseJob (m_id newEmail)])"
    unfolding n(2) jobs_completeIngestion jc by (simp add: autoResponseJob_def)
  have na: "\<forall>j \<in> set ?js. job_event j \<noteq> ConversationsAutoResponseCreate"
    using payloads_not_autoResponse by blast
  have e: "r_messageId entry = Some (m_id newEmail)" "responded entry = Some (\<not> fst (snd ?d))"
    unfolding n(3) by (simp_all add: entry_completeIngestion)
  from j na e show ?thesis by blast
qed

lemma autoResponseJob_event: "job_event (autoResponseJob i) = ConversationsAutoResponseCreate"
  by (simp add: autoResponseJob_def)

lemma yes_no:
  "trim (toLowerCase ''No'') \<noteq> ''yes''" "trim (toLowerCase ''Yes'') = ''yes''"
  by (simp_all add: trim_def trimStart_def toLowerCase_def toLowerChar_def isWhiteSpace_def
      char_of_eq_iff)

lemma decision_examples:
  "fst (snd (decisionOf inboxEnv exampleMailbox ''m1'' ''m1'' [''INBOX''] exampleSender b emptyDb)) = False"
  "fst (snd (decisionOf thanksInboxEnv exampleMailbox ''m1'' ''m1'' [''INBOX''] exampleSender b emptyDb)) = True"
  by (simp_all add: decisionOf_def decideShouldIgnore_def cheapIgnore_def isThankYouOrAutoResponse_def
      inboxEnv_def thanksInboxEnv_def exampleEnv_def exampleSender_def isNewThread_def
      IGNORED_GMAIL_CATEGORIES_def yes_no)

lemma thanksInboxEnv_sel:
  "getMessageById thanksInboxEnv ''m1'' = Inr exampleMail"
  "parseEmailAddress thanksInboxEnv (orElse (pm_from exampleMail) []) = Some exampleSender"
  "\<not> throwInThisEnvironment thanksInboxEnv"
  by (simp_all add: thanksInboxEnv_def inboxEnv_def exampleEnv_def exampleMail_def exampleSender_def
      orElse_def)

lemma labels_firstMessage: "labelIdsOf firstMessage = [''INBOX'']"
  by (simp add: labelIdsOf_def firstMessage_def orElse_def)

text \<open>
  C5. The last step of an ingestion enqueues the job of
  \<open>conversations/auto-response.create\<close> for the new message iff the message is not ignored,
  and nothing else; the entry's \<open>responded\<close> is the negation of the ignore decision. Over a
  whole turn of the loop that persisted a message: \<open>responded\<close> is the negation of the ignore
  decision taken for the fetched email, the job for that message id is among the jobs the
  turn enqueued iff \<open>responded\<close> is true, and the turn enqueued no other auto-response job.
\<close>

theorem auto_response_event:
  "(completeIngestion mailbox conv newEmail ig isAuto gid tid s = (s', entry) \<longrightarrow>
      enqueued s s' = (if ig then [] else [autoResponseJob (m_id newEmail)]) \<and>
      responded entry = Some (\<not> ig) \<and> r_messageId entry = Some (m_id newEmail)) \<and>
   (processMessage en gse mailbox' msg s0 = (s1, Inr entry') \<and> r_messageId entry' = Some mid \<longrightarrow>
      (\<exists>mail sender emailBody.
         getMessageById en (gidOf msg) = Inr mail \<and>
         getParsedEmailInfo en mail = Inr (sender, emailBody) \<and>
         responded entry' =
           Some (\<not> fst (snd (decisionOf en mailbox' (gidOf msg) (tidOf msg) (labelIdsOf msg) sender
                               emailBody s0)))) \<and>
      (autoResponseJob mid \<in> set (enqueued s0 s1) \<longleftrightarrow> responded entry' = Some True) \<and>
      (\<forall>j \<in> set (enqueued s0 s1).
         job_event j = ConversationsAutoResponseCreate \<longrightarrow> j = autoResponseJob mid))"
proof (rule conjI; rule impI)
  assume a: "completeIngestion mailbox conv newEmail ig isAuto gid tid s = (s', entry)"
  have s': "s' = fst (completeIngestion mailbox conv newEmail ig isAuto gid tid s)"
    and e: "entry = snd (completeIngestion mailbox conv newEmail ig isAuto gid tid s)"
    using a by simp_all
  have "jobs s' = jobs s @ (if ig then [] else [autoResponseJob (m_id newEmail)])"
    unfolding s' jobs_completeIngestion by (simp add: autoResponseJob_def)
  then have "enqueued s s' = (if ig then [] else [autoResponseJob (m_id newEmail)])"
    by (rule enqueued_append)
  then show "enqueued s s' = (if ig then [] else [autoResponseJob (m_id newEmail)]) \<and>
      responded entry = Some (\<not> ig) \<and> r_messageId entry = Some (m_id newEmail)"
    unfolding e by (simp add: entry_completeIngestion)
next
  assume a: "processMessage en gse mailbox' msg s0 = (s1, Inr entry') \<and> r_messageId entry' = Some mid"
  then have ne: "r_messageId entry' \<noteq> None" by simp
  from processMessage_created[of en gse mailbox' msg s0 s1 entry'] a
  have i: "ingestMessage en gse mailbox' (gidOf msg) (tidOf msg) (labelIdsOf msg) s0 = (s1, Inr entry')"
    by simp
  from ingestMessage_created[OF i ne] obtain mail sender emailBody where
    p: "getMessageById en (gidOf msg) = Inr mail" "getParsedEmailInfo en mail = Inr (sender, emailBody)"
       "ingestParsed en gse mailbox' (gidOf msg) (tidOf msg) (labelIdsOf msg) mail sender emailBody s0 =
          (s1, Inr entry')"
    by blast
  let ?b = "fst (snd (decisionOf en mailbox' (gidOf msg) (tidOf msg) (labelIdsOf msg) sender emailBody s0))"
  from jobs_ingestParsed_created[OF p(3)] obtain js mid' where
    j: "jobs s1 = jobs s0 @ js @ (if ?b then [] else [autoResponseJob mid'])"
       "\<forall>j \<in> set js. job_event j \<noteq> ConversationsAutoResponseCreate"
       "r_messageId entry' = Some mid'" "responded entry' = Some (\<not> ?b)"
    by blast
  have mid: "mid' = mid" using a j(3) by simp
  have q: "enqueued s0 s1 = js @ (if ?b then [] else [autoResponseJob mid])"
    using j(1) mid by (simp add: enqueued_def)
  have notin: "autoResponseJob mid \<notin> set js"
    using j(2) autoResponseJob_event by blast
  have 1: "\<exists>mail sender emailBody.
         getMessageById en (gidOf msg) = Inr mail \<and>
         getParsedEmailInfo en mail = Inr (sender, emailBody) \<and>
         responded entry' =
           Some (\<not> fst (snd (decisionOf en mailbox' (gidOf msg) (tidOf msg) (labelIdsOf msg) sender
                               emailBody s0)))"
    using p(1,2) j(4) by blast
  have 2: "autoResponseJob mid \<in> set (enqueued s0 s1) \<longleftrightarrow> responded entry' = Some True"
    unfolding q j(4) using notin by simp
  have 3: "\<forall>j \<in> set (enqueued s0 s1).
         job_event j = ConversationsAutoResponseCreate \<longrightarrow> j = autoResponseJob mid"
    unfolding q using j(2) by auto
  from 1 2 3 show "(\<exists>mail sender emailBody.
         getMessageById en (gidOf msg) = Inr mail \<and>
         getParsedEmailInfo en mail = Inr (sender, emailBody) \<and>
         responded entry' =
           Some (\<not> fst (snd (decisionOf en mailbox' (gidOf msg) (tidOf msg) (labelIdsOf msg) sender
                               emailBody s0)))) \<and>
      (autoResponseJob mid \<in> set (enqueued s0 s1) \<longleftrightarrow> responded entry' = Some True) \<and>
      (\<forall>j \<in> set (enqueued s0 s1).
         job_event j = ConversationsAutoResponseCreate \<longrightarrow> j = autoResponseJob mid)"
    by (intro conjI)
qed

theorem auto_response_event_witness:
  "(\<exists>s1 entry. processMessage inboxEnv supportEmail exampleMailbox firstMessage emptyDb = (s1, Inr entry) \<and>
      r_messageId entry = Some 1 \<and> responded entry = Some True \<and>
      autoResponseJob 1 \<in> set (enqueued emptyDb s1)) \<and>
   (\<exists>s1 entry. processMessage thanksInboxEnv supportEmail exampleMailbox firstMessage emptyDb = (s1, Inr entry) \<and>
      r_messageId entry = Some 1 \<and> responded entry = Some False \<and>
      autoResponseJob 1 \<notin> set (enqueued emptyDb s1))"
proof -
  have n: "existingEmail (gidOf firstMessage) emptyDb = None"
    by (simp add: existingEmail_def emptyDb_def)
  have o: "address exampleSender \<noteq> email supportEmail"
    by (simp add: exampleSender_def supportEmail_def)
  have f: "freshId (map m_id (conversationMessages emptyDb)) = 1"
    by (simp add: emptyDb_def freshId_def)
  obtain s1 entry where h: "processMessage inboxEnv supportEmail exampleMailbox firstMessage emptyDb =
      (s1, Inr entry)" "r_messageId entry = Some 1" "responded entry = Some True"
    using processMessage_happy[where msg=firstMessage and s=emptyDb and en=inboxEnv
        and mail=exampleMail and sender=exampleSender and gse=supportEmail and mailbox=exampleMailbox]
      msg_sel(1) n inboxEnv_sel o
    by (auto simp: msg_sel f labels_firstMessage decision_examples)
  obtain s2 entry2 where k: "processMessage thanksInboxEnv supportEmail exampleMailbox firstMessage emptyDb =
      (s2, Inr entry2)" "r_messageId entry2 = Some 1" "responded entry2 = Some False"
    using processMessage_happy[where msg=firstMessage and s=emptyDb and en=thanksInboxEnv
        and mail=exampleMail and sender=exampleSender and gse=supportEmail and mailbox=exampleMailbox]
      msg_sel(1) n thanksInboxEnv_sel o
    by (auto simp: msg_sel f labels_firstMessage decision_examples)
  have 1: "autoResponseJob 1 \<in> set (enqueued emptyDb s1)"
    using auto_response_event[where en=inboxEnv and gse=supportEmail and mailbox'=exampleMailbox
        and msg=firstMessage and ?s0.0=emptyDb and ?s1.0=s1 and entry'=entry and mid=1,
        THEN conjunct2] h
    by simp
  have 2: "autoResponseJob 1 \<notin> set (enqueued emptyDb s2)"
    using auto_response_event[where en=thanksInboxEnv and gse=supportEmail and mailbox'=exampleMailbox
        and msg=firstMessage and ?s0.0=emptyDb and ?s1.0=s2 and entry'=entry2 and mid=1,
        THEN conjunct2] k
    by simp
  from h k 1 2 show ?thesis by blast
qed

section \<open>The loop and the history cursor\<close>

lemma ingestMessage_cursor:
  "gmailSupportEmails (fst (ingestMessage en gse mailbox gid tid labels s)) = gmailSupportEmails s"
  by (simp add: ingestMessage_cases ingestParsed_effects split: sum.splits)

lemma catchIngestion_cursor:
  "gmailSupportEmails (fst (catchIngestion en gid tid tried)) = gmailSupportEmails (fst tried)"
proof (cases tried)
  case (Pair s1 out)
  then show ?thesis
    by (cases out) (simp_all add: catchIngestion_Inl catchIngestion_Inr)
qed

lemma catchIngestion_messages:
  "conversationMessages (fst (catchIngestion en gid tid tried)) = conversationMessages (fst tried)"
proof (cases tried)
  case (Pair s1 out)
  then show ?thesis
    by (cases out) (simp_all add: catchIngestion_Inl catchIngestion_Inr)
qed

lemma catchIngestion_quiet:
  "\<not> throwInThisEnvironment en \<Longrightarrow> \<exists>entry. snd (catchIngestion en gid tid tried) = Inr entry"
proof (cases tried)
  case (Pair s1 out)
  assume "\<not> throwInThisEnvironment en"
  with Pair show ?thesis
    by (cases out) (simp_all add: catchIngestion_Inl catchIngestion_Inr)
qed

lemma processMessage_cursor:
  "gmailSupportEmails (fst (processMessage en gse mailbox msg s)) = gmailSupportEmails s"
  by (simp add: processMessage_eq catchIngestion_cursor ingestMessage_cursor)

lemma processMessage_quiet:
  "\<not> throwInThisEnvironment en \<Longrightarrow> \<exists>entry. snd (processMessage en gse mailbox msg s) = Inr entry"
  by (simp add: processMessage_eq catchIngestion_quiet)

lemma processMessages_cursor:
  "gmailSupportEmails (fst (processMessages en gse mailbox msgs s)) = gmailSupportEmails s"
proof (induction msgs arbitrary: s)
  case Nil
  show ?case by simp
next
  case (Cons msg rest)
  let ?p = "processMessage en gse mailbox msg s"
  have c: "gmailSupportEmails (fst ?p) = gmailSupportEmails s" by (rule processMessage_cursor)
  show ?case
  proof (cases "snd ?p")
    case (Inl e)
    then have "processMessages en gse mailbox (msg # rest) s = (fst ?p, Inl e)"
      by (simp add: case_prod_beta)
    then show ?thesis using c by simp
  next
    case (Inr entry)
    then have "fst (processMessages en gse mailbox (msg # rest) s) =
        fst (processMessages en gse mailbox rest (fst ?p))"
      by (simp add: case_prod_beta split: sum.splits)
    then show ?thesis using c Cons[of "fst ?p"] by simp
  qed
qed

lemma processMessages_quiet:
  assumes "\<not> throwInThisEnvironment en"
  shows "\<exists>s' entries. processMessages en gse mailbox msgs s = (s', Inr entries) \<and>
           length entries = length msgs"
proof (induction msgs arbitrary: s)
  case Nil
  show ?case by simp
next
  case (Cons msg rest)
  obtain entry where e: "snd (processMessage en gse mailbox msg s) = Inr entry"
    using processMessage_quiet[OF assms] by blast
  let ?s1 = "fst (processMessage en gse mailbox msg s)"
  have p: "processMessage en gse mailbox msg s = (?s1, Inr entry)"
    using e by (simp add: prod_eq_iff)
  from Cons[of ?s1] obtain s2 entries where
    r: "processMessages en gse mailbox rest ?s1 = (s2, Inr entries)" "length entries = length rest"
    by blast
  from processMessages_step[OF p r(1)] r(2) show ?case by simp
qed

lemma processMessage_fetch_fails:
  assumes "hasIds msg" "persisted (gidOf msg) s = []" "getMessageById en (gidOf msg) = Inl e"
    "\<not> throwInThisEnvironment en"
  shows "processMessage en gse mailbox msg s =
     (s\<lparr>captured := captured s @ [e]\<rparr>, Inr (errorEntry (gidOf msg) (tidOf msg) e))"
  using assms
  by (simp add: processMessage_eq persisted_Nil ingestMessage_cases catchIngestion_Inl)

lemma ingestMessage_never_persists:
  assumes "getMessageById en g = Inl e"
  shows "persisted g (fst (ingestMessage en gse mailbox gid tid labels s)) = persisted g s"
proof (cases "getMessageById en gid")
  case (Inl x)
  then show ?thesis by (simp add: ingestMessage_cases)
next
  case (Inr mail)
  with assms have ne: "gid \<noteq> g" by auto
  show ?thesis
  proof (cases "getParsedEmailInfo en mail")
    case (Inl x)
    with Inr show ?thesis by (simp add: ingestMessage_cases)
  next
    case p: (Inr p)
    show ?thesis
    proof (cases "address (fst p) = email gse")
      case True
      with Inr p show ?thesis by (simp add: ingestMessage_cases)
    next
      case False
      with Inr p ne show ?thesis
        by (simp add: ingestMessage_cases persisted_def ingestParsed_effects ingestedMessage_sel)
    qed
  qed
qed

lemma processMessage_never_persists:
  assumes "getMessageById en g = Inl e"
  shows "persisted g (fst (processMessage en gse mailbox msg s)) = persisted g s"
proof -
  have "persisted g (fst (catchIngestion en gid tid tried)) = persisted g (fst tried)" for gid tid tried
    by (simp add: persisted_def catchIngestion_messages)
  then show ?thesis
    by (simp add: processMessage_eq ingestMessage_never_persists[OF assms])
qed

lemma processMessages_error_entry:
  assumes quiet: "\<not> throwInThisEnvironment en"
  shows "i < length msgs \<Longrightarrow> hasIds (msgs ! i) \<Longrightarrow> getMessageById en (gidOf (msgs ! i)) = Inl e \<Longrightarrow>
     persisted (gidOf (msgs ! i)) s = [] \<Longrightarrow>
     \<exists>s' entries. processMessages en gse mailbox msgs s = (s', Inr entries) \<and>
        length entries = length msgs \<and>
        entries ! i = errorEntry (gidOf (msgs ! i)) (tidOf (msgs ! i)) e"
proof (induction msgs arbitrary: s i)
  case Nil
  then show ?case by simp
next
  case (Cons msg rest)
  show ?case
  proof (cases i)
    case 0
    with Cons.prems have p: "processMessage en gse mailbox msg s =
       (s\<lparr>captured := captured s @ [e]\<rparr>, Inr (errorEntry (gidOf msg) (tidOf msg) e))"
      using processMessage_fetch_fails[OF _ _ _ quiet, of msg s e gse mailbox] by simp
    obtain s2 entries where r: "processMessages en gse mailbox rest (s\<lparr>captured := captured s @ [e]\<rparr>) =
        (s2, Inr entries)" "length entries = length rest"
      using processMessages_quiet[OF quiet] by blast
    from processMessages_step[OF p r(1)] r(2) 0 show ?thesis by simp
  next
    case (Suc k)
    obtain entry where en: "snd (processMessage en gse mailbox msg s) = Inr entry"
      using processMessage_quiet[OF quiet] by blast
    let ?s1 = "fst (processMessage en gse mailbox msg s)"
    have p: "processMessage en gse mailbox msg s = (?s1, Inr entry)"
      using en by (simp add: prod_eq_iff)
    have k: "k < length rest" "hasIds (rest ! k)" "getMessageById en (gidOf (rest ! k)) = Inl e"
      using Cons.prems Suc by simp_all
    have "persisted (gidOf (rest ! k)) ?s1 = []"
      using processMessage_never_persists[OF k(3)] Cons.prems(4) Suc by simp
    from Cons.IH[OF k this] obtain s2 entries where
      r: "processMessages en gse mailbox rest ?s1 = (s2, Inr entries)" "length entries = length rest"
         "entries ! k = errorEntry (gidOf (rest ! k)) (tidOf (rest ! k)) e"
      by blast
    from processMessages_step[OF p r(1)] r(2,3) Suc show ?thesis by simp
  qed
qed

lemma handle_eq:
  "processMessages en gse mailbox msgs s = (s1, Inr entries) \<Longrightarrow>
   handleGmailWebhookEvent en gse mailbox data msgs s =
     (s1\<lparr>gmailSupportEmails := cursorSet gse (wd_historyId data) (gmailSupportEmails s1)\<rparr>,
      Inr \<lparr>response_data = (if NODE_ENV en = Development then Some data else None),
           response_messages = length msgs, results = entries\<rparr>)"
  by (simp add: handleGmailWebhookEvent_def)

lemma handle_thrown:
  "processMessages en gse mailbox msgs s = (s1, Inl e) \<Longrightarrow>
   handleGmailWebhookEvent en gse mailbox data msgs s = (s1, Inl e)"
  by (simp add: handleGmailWebhookEvent_def)

lemma cursorDb_sel:
  "conversationMessages cursorDb = []" "gmailSupportEmails cursorDb = [supportEmail]"
  "captured cursorDb = []"
  by (simp_all add: cursorDb_def emptyDb_def)

lemma stateAt_0: "stateAt en gse mailbox msgs s 0 = s"
  by (simp add: stateAt_def)

lemma stateAt_Cons:
  "stateAt en gse mailbox (msg # rest) s (Suc i) =
     stateAt en gse mailbox rest (fst (processMessage en gse mailbox msg s)) i"
  by (simp add: stateAt_def)

lemma stateAt_Suc:
  "i < length msgs \<Longrightarrow>
   stateAt en gse mailbox msgs s (Suc i) =
     fst (processMessage en gse mailbox (msgs ! i) (stateAt en gse mailbox msgs s i))"
  by (simp add: stateAt_def take_Suc_conv_app_nth)

lemma stateAt_cursor:
  "gmailSupportEmails (stateAt en gse mailbox msgs s i) = gmailSupportEmails s"
proof (induction i)
  case 0
  show ?case by (simp add: stateAt_0)
next
  case (Suc i)
  show ?case
  proof (cases "i < length msgs")
    case True
    then show ?thesis using Suc by (simp add: stateAt_Suc processMessage_cursor)
  next
    case False
    then have "stateAt en gse mailbox msgs s (Suc i) = stateAt en gse mailbox msgs s i"
      by (simp add: stateAt_def)
    then show ?thesis using Suc by simp
  qed
qed

lemma processMessages_stateAt:
  assumes "\<forall>j < length msgs. \<exists>entry.
      snd (processMessage en gse mailbox (msgs ! j) (stateAt en gse mailbox msgs s j)) = Inr entry"
  shows "\<exists>entries. processMessages en gse mailbox msgs s =
        (stateAt en gse mailbox msgs s (length msgs), Inr entries) \<and>
     length entries = length msgs \<and>
     (\<forall>i < length msgs.
        snd (processMessage en gse mailbox (msgs ! i) (stateAt en gse mailbox msgs s i)) =
          Inr (entries ! i))"
  using assms
proof (induction msgs arbitrary: s)
  case Nil
  show ?case by (simp add: stateAt_0)
next
  case (Cons msg rest)
  let ?s1 = "fst (processMessage en gse mailbox msg s)"
  from Cons.prems[rule_format, of 0] obtain entry where
    e: "snd (processMessage en gse mailbox msg s) = Inr entry"
    by (auto simp: stateAt_0)
  then have p: "processMessage en gse mailbox msg s = (?s1, Inr entry)"
    by (simp add: prod_eq_iff)
  have "\<forall>j < length rest. \<exists>entry.
      snd (processMessage en gse mailbox (rest ! j) (stateAt en gse mailbox rest ?s1 j)) = Inr entry"
  proof (intro allI impI)
    fix j assume "j < length rest"
    then have "Suc j < length (msg # rest)" by simp
    from Cons.prems[rule_format, OF this]
    show "\<exists>entry. snd (processMessage en gse mailbox (rest ! j) (stateAt en gse mailbox rest ?s1 j)) =
        Inr entry"
      by (simp add: stateAt_Cons)
  qed
  from Cons.IH[OF this] obtain entries where
    r: "processMessages en gse mailbox rest ?s1 = (stateAt en gse mailbox rest ?s1 (length rest), Inr entries)"
       "length entries = length rest"
       "\<forall>i < length rest.
          snd (processMessage en gse mailbox (rest ! i) (stateAt en gse mailbox rest ?s1 i)) =
            Inr (entries ! i)"
    by blast
  have 1: "processMessages en gse mailbox (msg # rest) s =
      (stateAt en gse mailbox (msg # rest) s (length (msg # rest)), Inr (entry # entries))"
    using processMessages_step[OF p r(1)] by (simp add: stateAt_Cons)
  have 2: "length (entry # entries) = length (msg # rest)" using r(2) by simp
  have 3: "\<forall>i < length (msg # rest).
        snd (processMessage en gse mailbox ((msg # rest) ! i) (stateAt en gse mailbox (msg # rest) s i)) =
          Inr ((entry # entries) ! i)"
  proof (intro allI impI)
    fix i assume i: "i < length (msg # rest)"
    show "snd (processMessage en gse mailbox ((msg # rest) ! i) (stateAt en gse mailbox (msg # rest) s i)) =
          Inr ((entry # entries) ! i)"
    proof (cases i)
      case 0
      then show ?thesis using e by (simp add: stateAt_0)
    next
      case (Suc k)
      with i have "k < length rest" by simp
      with r(3) Suc show ?thesis by (simp add: stateAt_Cons)
    qed
  qed
  from 1 2 3 show ?case by blast
qed

lemma processMessages_stop:
  "processMessage en gse mailbox msg s = (s1, Inl e) \<Longrightarrow>
   processMessages en gse mailbox (msg # rest) s = (s1, Inl e)"
  by simp

lemma processMessages_step_thrown:
  "processMessage en gse mailbox msg s = (s1, Inr entry) \<Longrightarrow>
   processMessages en gse mailbox rest s1 = (s2, Inl e) \<Longrightarrow>
   processMessages en gse mailbox (msg # rest) s = (s2, Inl e)"
  by simp

lemma processMessages_thrown:
  assumes "i < length msgs"
    and "\<forall>j < i. \<exists>entry.
      snd (processMessage en gse mailbox (msgs ! j) (stateAt en gse mailbox msgs s j)) = Inr entry"
    and "snd (processMessage en gse mailbox (msgs ! i) (stateAt en gse mailbox msgs s i)) = Inl e"
  shows "processMessages en gse mailbox msgs s = (stateAt en gse mailbox msgs s (Suc i), Inl e)"
  using assms
proof (induction msgs arbitrary: s i)
  case Nil
  then show ?case by simp
next
  case (Cons msg rest)
  let ?s1 = "fst (processMessage en gse mailbox msg s)"
  show ?case
  proof (cases i)
    case 0
    with Cons.prems(3) have "processMessage en gse mailbox msg s = (?s1, Inl e)"
      by (simp add: stateAt_0 prod_eq_iff)
    then have "processMessages en gse mailbox (msg # rest) s = (?s1, Inl e)"
      by (rule processMessages_stop)
    with 0 show ?thesis by (simp add: stateAt_Cons stateAt_0)
  next
    case (Suc k)
    from Cons.prems(2)[rule_format, of 0] Suc obtain entry where
      e: "snd (processMessage en gse mailbox msg s) = Inr entry"
      by (auto simp: stateAt_0)
    then have p: "processMessage en gse mailbox msg s = (?s1, Inr entry)"
      by (simp add: prod_eq_iff)
    have k: "k < length rest" using Cons.prems(1) Suc by simp
    have b: "\<forall>j < k. \<exists>entry.
      snd (processMessage en gse mailbox (rest ! j) (stateAt en gse mailbox rest ?s1 j)) = Inr entry"
    proof (intro allI impI)
      fix j assume "j < k"
      then have "Suc j < i" using Suc by simp
      from Cons.prems(2)[rule_format, OF this]
      show "\<exists>entry. snd (processMessage en gse mailbox (rest ! j) (stateAt en gse mailbox rest ?s1 j)) =
          Inr entry"
        by (simp add: stateAt_Cons)
    qed
    have t: "snd (processMessage en gse mailbox (rest ! k) (stateAt en gse mailbox rest ?s1 k)) = Inl e"
      using Cons.prems(3) Suc by (simp add: stateAt_Cons)
    from Cons.IH[OF k b t]
    have "processMessages en gse mailbox rest ?s1 = (stateAt en gse mailbox rest ?s1 (Suc k), Inl e)" .
    from processMessages_step_thrown[OF p this]
    have "processMessages en gse mailbox (msg # rest) s =
        (stateAt en gse mailbox rest ?s1 (Suc k), Inl e)" .
    with Suc show ?thesis by (simp add: stateAt_Cons)
  qed
qed

lemma processMessage_throws:
  assumes "hasIds msg" "persisted (gidOf msg) s = []"
    and "ingestMessage en gse mailbox (gidOf msg) (tidOf msg) (labelIdsOf msg) s = (st, Inl e)"
  shows "processMessage en gse mailbox msg s =
     (st\<lparr>captured := captured st @ [e]\<rparr>,
      if throwInThisEnvironment en then Inl e
      else Inr \<lparr>r_message = ''Error processing message '' @ gidOf msg @ '': '' @ errorToString e,
                responded = None, isAutomatedResponseOrThankYou = None,
                r_gmailMessageId = idOf msg, r_gmailThreadId = threadIdOf msg,
                r_messageId = None, conversationSlug = None\<rparr>)"
proof -
  have ids: "idOf msg = Some (gidOf msg)" "threadIdOf msg = Some (tidOf msg)"
    using assms(1)
    by (auto simp: hasIds_def truthy_def gidOf_def tidOf_def orElse_def split: option.splits)
  show ?thesis
    using assms
    by (simp add: processMessage_eq persisted_Nil catchIngestion_Inl errorEntry_def skipped_def ids)
qed

lemma ingestMessage_other:
  assumes "gid \<noteq> g"
  shows "persisted g (fst (ingestMessage en gse mailbox gid tid labels s)) = persisted g s"
proof (cases "getMessageById en gid")
  case (Inl x)
  then show ?thesis by (simp add: ingestMessage_cases)
next
  case (Inr mail)
  show ?thesis
  proof (cases "getParsedEmailInfo en mail")
    case (Inl x)
    with Inr show ?thesis by (simp add: ingestMessage_cases)
  next
    case p: (Inr p)
    show ?thesis
    proof (cases "address (fst p) = email gse")
      case True
      with Inr p show ?thesis by (simp add: ingestMessage_cases)
    next
      case False
      with Inr p assms show ?thesis
        by (simp add: ingestMessage_cases persisted_def ingestParsed_effects ingestedMessage_sel)
    qed
  qed
qed

lemma processMessage_keeps:
  assumes "persisted g s \<noteq> []"
  shows "persisted g (fst (processMessage en gse mailbox msg s)) = persisted g s"
proof (cases "hasIds msg \<and> existingEmail (gidOf msg) s = None")
  case False
  then show ?thesis by (auto simp: processMessage_eq)
next
  case True
  with assms have ne: "gidOf msg \<noteq> g" by (auto simp: persisted_Nil)
  have "persisted g (fst (catchIngestion en gid tid tried)) = persisted g (fst tried)" for gid tid tried
    by (simp add: persisted_def catchIngestion_messages)
  then show ?thesis using True by (simp add: processMessage_eq ingestMessage_other[OF ne])
qed

lemma stateAt_keeps:
  assumes "persisted g (stateAt en gse mailbox msgs s i) \<noteq> []" "i \<le> j"
  shows "persisted g (stateAt en gse mailbox msgs s j) = persisted g (stateAt en gse mailbox msgs s i)"
  using assms(2)
proof (induction j rule: dec_induct)
  case base
  show ?case by simp
next
  case (step n)
  show ?case
  proof (cases "n < length msgs")
    case True
    then show ?thesis using step assms(1) by (simp add: stateAt_Suc processMessage_keeps)
  next
    case False
    then have "stateAt en gse mailbox msgs s (Suc n) = stateAt en gse mailbox msgs s n"
      by (simp add: stateAt_def)
    then show ?thesis using step by simp
  qed
qed


lemma reference_ids:
  "hasIds msg \<Longrightarrow> idOf msg = Some (gidOf msg) \<and> threadIdOf msg = Some (tidOf msg)"
  by (auto simp: hasIds_def truthy_def gidOf_def tidOf_def orElse_def split: option.splits)

lemma persisted_cursor [simp]:
  "persisted g (s\<lparr>gmailSupportEmails := rows\<rparr>) = persisted g s"
  by (simp add: persisted_def)

lemma batch_quiet:
  assumes quiet: "\<not> throwInThisEnvironment en"
  shows "\<exists>s' response.
     handleGmailWebhookEvent en gse mailbox data msgs s = (s', Inr response) \<and>
     length (results response) = length msgs \<and>
     (\<forall>i < length msgs.
        processMessage en gse mailbox (msgs ! i) (stateAt en gse mailbox msgs s i) =
          (stateAt en gse mailbox msgs s (Suc i), Inr (results response ! i))) \<and>
     (\<forall>i st e. i < length msgs \<and> hasIds (msgs ! i) \<and>
          persisted (gidOf (msgs ! i)) (stateAt en gse mailbox msgs s i) = [] \<and>
          ingestMessage en gse mailbox (gidOf (msgs ! i)) (tidOf (msgs ! i)) (labelIdsOf (msgs ! i))
            (stateAt en gse mailbox msgs s i) = (st, Inl e) \<longrightarrow>
        results response ! i =
          \<lparr>r_message = ''Error processing message '' @ gidOf (msgs ! i) @ '': '' @ errorToString e,
           responded = None, isAutomatedResponseOrThankYou = None,
           r_gmailMessageId = idOf (msgs ! i), r_gmailThreadId = threadIdOf (msgs ! i),
           r_messageId = None, conversationSlug = None\<rparr> \<and>
        stateAt en gse mailbox msgs s (Suc i) = st\<lparr>captured := captured st @ [e]\<rparr>) \<and>
     (\<forall>i e. i < length msgs \<and> hasIds (msgs ! i) \<and> persisted (gidOf (msgs ! i)) s = [] \<and>
          getMessageById en (gidOf (msgs ! i)) = Inl e \<longrightarrow>
        results response ! i =
          \<lparr>r_message = ''Error processing message '' @ gidOf (msgs ! i) @ '': '' @ errorToString e,
           responded = None, isAutomatedResponseOrThankYou = None,
           r_gmailMessageId = idOf (msgs ! i), r_gmailThreadId = threadIdOf (msgs ! i),
           r_messageId = None, conversationSlug = None\<rparr>) \<and>
     (\<forall>i mail sender. i < length msgs \<and> hasIds (msgs ! i) \<and>
          persisted (gidOf (msgs ! i)) (stateAt en gse mailbox msgs s i) = [] \<and>
          getMessageById en (gidOf (msgs ! i)) = Inr mail \<and>
          parseEmailAddress en (orElse (pm_from mail) []) = Some sender \<and>
          address sender \<noteq> email gse \<longrightarrow>
        r_messageId (results response ! i) =
          Some (freshId (map m_id (conversationMessages (stateAt en gse mailbox msgs s i)))) \<and>
        length (persisted (gidOf (msgs ! i)) s') = 1) \<and>
     (\<forall>i. gmailSupportEmails (stateAt en gse mailbox msgs s i) = gmailSupportEmails s) \<and>
     s' = (stateAt en gse mailbox msgs s (length msgs))
            \<lparr>gmailSupportEmails := cursorSet gse (wd_historyId data) (gmailSupportEmails s)\<rparr> \<and>
     gmailSupportEmails s' =
       map (\<lambda>g. if gse_id g = gse_id gse then g\<lparr>historyId := Some (wd_historyId data)\<rparr> else g)
         (gmailSupportEmails s)"
proof -
  let ?at = "stateAt en gse mailbox msgs s"
  have "\<forall>j < length msgs. \<exists>entry.
      snd (processMessage en gse mailbox (msgs ! j) (?at j)) = Inr entry"
    using processMessage_quiet[OF quiet] by blast
  from processMessages_stateAt[OF this] obtain entries where
    p: "processMessages en gse mailbox msgs s = (?at (length msgs), Inr entries)"
       "length entries = length msgs"
       "\<forall>i < length msgs. snd (processMessage en gse mailbox (msgs ! i) (?at i)) = Inr (entries ! i)"
    by blast
  let ?s' = "(?at (length msgs))\<lparr>gmailSupportEmails := cursorSet gse (wd_historyId data) (gmailSupportEmails s)\<rparr>"
  let ?resp = "\<lparr>response_data = (if NODE_ENV en = Development then Some data else None),
           response_messages = length msgs, results = entries\<rparr>"
  have r: "results ?resp = entries" by simp
  have h: "handleGmailWebhookEvent en gse mailbox data msgs s = (?s', Inr ?resp)"
    using handle_eq[OF p(1), of data] by (simp add: stateAt_cursor)
  have c1: "length (results ?resp) = length msgs" using p(2) by simp
  have turn: "processMessage en gse mailbox (msgs ! i) (?at i) = (?at (Suc i), Inr (entries ! i))"
    if "i < length msgs" for i
    using that p(3) by (simp add: prod_eq_iff stateAt_Suc)
  have c2: "\<forall>i < length msgs.
        processMessage en gse mailbox (msgs ! i) (?at i) = (?at (Suc i), Inr (results ?resp ! i))"
    unfolding r using turn by blast
  have c3: "\<forall>i st e. i < length msgs \<and> hasIds (msgs ! i) \<and>
          persisted (gidOf (msgs ! i)) (?at i) = [] \<and>
          ingestMessage en gse mailbox (gidOf (msgs ! i)) (tidOf (msgs ! i)) (labelIdsOf (msgs ! i))
            (?at i) = (st, Inl e) \<longrightarrow>
        results ?resp ! i =
          \<lparr>r_message = ''Error processing message '' @ gidOf (msgs ! i) @ '': '' @ errorToString e,
           responded = None, isAutomatedResponseOrThankYou = None,
           r_gmailMessageId = idOf (msgs ! i), r_gmailThreadId = threadIdOf (msgs ! i),
           r_messageId = None, conversationSlug = None\<rparr> \<and>
        ?at (Suc i) = st\<lparr>captured := captured st @ [e]\<rparr>"
    unfolding r
  proof (intro allI impI)
    fix i st e
    assume a: "i < length msgs \<and> hasIds (msgs ! i) \<and>
          persisted (gidOf (msgs ! i)) (?at i) = [] \<and>
          ingestMessage en gse mailbox (gidOf (msgs ! i)) (tidOf (msgs ! i)) (labelIdsOf (msgs ! i))
            (?at i) = (st, Inl e)"
    then have 1: "hasIds (msgs ! i)" and 2: "persisted (gidOf (msgs ! i)) (?at i) = []"
      and 3: "ingestMessage en gse mailbox (gidOf (msgs ! i)) (tidOf (msgs ! i)) (labelIdsOf (msgs ! i))
            (?at i) = (st, Inl e)" and i: "i < length msgs"
      by simp_all
    from processMessage_throws[OF 1 2 3] quiet turn[OF i]
    show "entries ! i =
          \<lparr>r_message = ''Error processing message '' @ gidOf (msgs ! i) @ '': '' @ errorToString e,
           responded = None, isAutomatedResponseOrThankYou = None,
           r_gmailMessageId = idOf (msgs ! i), r_gmailThreadId = threadIdOf (msgs ! i),
           r_messageId = None, conversationSlug = None\<rparr> \<and>
        ?at (Suc i) = st\<lparr>captured := captured st @ [e]\<rparr>"
      by simp
  qed
  have c4: "\<forall>i e. i < length msgs \<and> hasIds (msgs ! i) \<and> persisted (gidOf (msgs ! i)) s = [] \<and>
          getMessageById en (gidOf (msgs ! i)) = Inl e \<longrightarrow>
        results ?resp ! i =
          \<lparr>r_message = ''Error processing message '' @ gidOf (msgs ! i) @ '': '' @ errorToString e,
           responded = None, isAutomatedResponseOrThankYou = None,
           r_gmailMessageId = idOf (msgs ! i), r_gmailThreadId = threadIdOf (msgs ! i),
           r_messageId = None, conversationSlug = None\<rparr>"
    unfolding r
  proof (intro allI impI)
    fix i e
    assume a: "i < length msgs \<and> hasIds (msgs ! i) \<and> persisted (gidOf (msgs ! i)) s = [] \<and>
          getMessageById en (gidOf (msgs ! i)) = Inl e"
    with processMessages_error_entry[OF quiet, of i msgs e s gse mailbox] p(1)
    have "entries ! i = errorEntry (gidOf (msgs ! i)) (tidOf (msgs ! i)) e" by auto
    with a reference_ids[of "msgs ! i"]
    show "entries ! i =
          \<lparr>r_message = ''Error processing message '' @ gidOf (msgs ! i) @ '': '' @ errorToString e,
           responded = None, isAutomatedResponseOrThankYou = None,
           r_gmailMessageId = idOf (msgs ! i), r_gmailThreadId = threadIdOf (msgs ! i),
           r_messageId = None, conversationSlug = None\<rparr>"
      by (simp add: errorEntry_def skipped_def)
  qed
  have c5: "\<forall>i mail sender. i < length msgs \<and> hasIds (msgs ! i) \<and>
          persisted (gidOf (msgs ! i)) (?at i) = [] \<and>
          getMessageById en (gidOf (msgs ! i)) = Inr mail \<and>
          parseEmailAddress en (orElse (pm_from mail) []) = Some sender \<and>
          address sender \<noteq> email gse \<longrightarrow>
        r_messageId (results ?resp ! i) = Some (freshId (map m_id (conversationMessages (?at i)))) \<and>
        length (persisted (gidOf (msgs ! i)) ?s') = 1"
    unfolding r
  proof (intro allI impI)
    fix i mail sender
    assume a: "i < length msgs \<and> hasIds (msgs ! i) \<and>
          persisted (gidOf (msgs ! i)) (?at i) = [] \<and>
          getMessageById en (gidOf (msgs ! i)) = Inr mail \<and>
          parseEmailAddress en (orElse (pm_from mail) []) = Some sender \<and>
          address sender \<noteq> email gse"
    then have i: "i < length msgs" and 1: "hasIds (msgs ! i)"
      and 2: "existingEmail (gidOf (msgs ! i)) (?at i) = None"
      and 3: "getMessageById en (gidOf (msgs ! i)) = Inr mail"
      and 4: "parseEmailAddress en (orElse (pm_from mail) []) = Some sender"
      and 5: "address sender \<noteq> email gse"
      by (simp_all add: persisted_Nil)
    from quiet have q: "\<not> throwInThisEnvironment en \<or> pm_attachments mail = []" by simp
    from processMessage_happy[OF 1 2 3 4 5 q, of mailbox] turn[OF i]
    have id: "r_messageId (entries ! i) = Some (freshId (map m_id (conversationMessages (?at i))))"
      by auto
    then have "r_messageId (entries ! i) \<noteq> None" by simp
    from processMessage_persists[OF turn[OF i] this]
    have one: "length (persisted (gidOf (msgs ! i)) (?at (Suc i))) = 1" by simp
    then have "persisted (gidOf (msgs ! i)) (?at (Suc i)) \<noteq> []" by auto
    from stateAt_keeps[OF this, of "length msgs"] i
    have "persisted (gidOf (msgs ! i)) (?at (length msgs)) = persisted (gidOf (msgs ! i)) (?at (Suc i))"
      by simp
    with one id
    show "r_messageId (entries ! i) = Some (freshId (map m_id (conversationMessages (?at i)))) \<and>
        length (persisted (gidOf (msgs ! i)) ?s') = 1"
      by simp
  qed
  have c6: "\<forall>i. gmailSupportEmails (?at i) = gmailSupportEmails s"
    by (simp add: stateAt_cursor)
  have c7: "?s' = ?s'" by (rule refl)
  have c8: "gmailSupportEmails ?s' =
       map (\<lambda>g. if gse_id g = gse_id gse then g\<lparr>historyId := Some (wd_historyId data)\<rparr> else g)
         (gmailSupportEmails s)"
    by (simp add: cursorSet_def)
  show ?thesis
    by (rule exI[of _ ?s'], rule exI[of _ ?resp], intro conjI)
       (rule h c1 c2 c3 c4 c5 c6 c7 c8)+
qed

lemma batch_thrown:
  assumes "throwInThisEnvironment en" "i < length msgs"
    and "\<forall>j < i. \<exists>entry.
      snd (processMessage en gse mailbox (msgs ! j) (stateAt en gse mailbox msgs s j)) = Inr entry"
    and "hasIds (msgs ! i)" "persisted (gidOf (msgs ! i)) (stateAt en gse mailbox msgs s i) = []"
    and "ingestMessage en gse mailbox (gidOf (msgs ! i)) (tidOf (msgs ! i)) (labelIdsOf (msgs ! i))
            (stateAt en gse mailbox msgs s i) = (st, Inl e)"
  shows "handleGmailWebhookEvent en gse mailbox data msgs s =
      (st\<lparr>captured := captured st @ [e]\<rparr>, Inl e) \<and>
    st\<lparr>captured := captured st @ [e]\<rparr> = stateAt en gse mailbox msgs s (Suc i) \<and>
    gmailSupportEmails (st\<lparr>captured := captured st @ [e]\<rparr>) = gmailSupportEmails s"
proof -
  let ?at = "stateAt en gse mailbox msgs s"
  from processMessage_throws[OF assms(4,5,6)] assms(1)
  have pm: "processMessage en gse mailbox (msgs ! i) (?at i) =
      (st\<lparr>captured := captured st @ [e]\<rparr>, Inl e)"
    by simp
  then have t: "snd (processMessage en gse mailbox (msgs ! i) (?at i)) = Inl e" by simp
  have n: "?at (Suc i) = st\<lparr>captured := captured st @ [e]\<rparr>"
    using pm assms(2) by (simp add: stateAt_Suc)
  from processMessages_thrown[OF assms(2,3) t]
  have "processMessages en gse mailbox msgs s = (?at (Suc i), Inl e)" .
  from handle_thrown[OF this, of data]
  have h: "handleGmailWebhookEvent en gse mailbox data msgs s = (?at (Suc i), Inl e)" .
  have c: "gmailSupportEmails (?at (Suc i)) = gmailSupportEmails s" by (rule stateAt_cursor)
  from h c n show ?thesis by simp
qed

lemma ingestMessage_fetch_fails:
  "getMessageById en gid = Inl e \<Longrightarrow> ingestMessage en gse mailbox gid tid labels s = (s, Inl e)"
  by (simp add: ingestMessage_cases)

lemma ingestMessage_parse_fails:
  "getMessageById en gid = Inr mail \<Longrightarrow> parseEmailAddress en (orElse (pm_from mail) []) = None \<Longrightarrow>
   \<exists>e. ingestMessage en gse mailbox gid tid labels s = (s, Inl e)"
  by (simp add: ingestMessage_cases getParsedEmailInfo_def)


lemma batchEnv_sel:
  "getMessageById batchEnv ''m1'' = Inr exampleMail"
  "getMessageById batchEnv ''gone'' = Inl (RequestFailed ''Not Found'')"
  "getMessageById batchEnv ''nofrom'' = Inr noSenderMail"
  "parseEmailAddress batchEnv (orElse (pm_from exampleMail) []) = Some exampleSender"
  "parseEmailAddress batchEnv (orElse (pm_from noSenderMail) []) = None"
  "\<not> throwInThisEnvironment batchEnv"
  "getMessageById devBatchEnv ''gone'' = Inl (RequestFailed ''Not Found'')"
  "throwInThisEnvironment devBatchEnv"
  by (simp_all add: devBatchEnv_def batchEnv_def exampleEnv_def exampleMail_def exampleSender_def
      noSenderMail_def orElse_def)

lemma noSender_sel:
  "hasIds noSenderMessage" "gidOf noSenderMessage = ''nofrom''" "tidOf noSenderMessage = ''nofrom''"
  "idOf noSenderMessage = Some ''nofrom''" "threadIdOf noSenderMessage = Some ''nofrom''"
  "idOf goneMessage = Some ''gone''" "threadIdOf goneMessage = Some ''gone''"
  "\<not> hasIds unthreaded"
  by (simp_all add: noSenderMessage_def goneMessage_def unthreaded_def reference_sel truthy_def)

lemma persisted_captured [simp]: "persisted g (s\<lparr>captured := errs\<rparr>) = persisted g s"
  by (simp add: persisted_def)

text \<open>
  C6, as the code has it. Where \<open>captureExceptionAndThrowIfDevelopment\<close> does not throw again,
  the handler returns a response with one entry per message reference, and every message
  has its turn: the turn for the message at position \<open>i\<close> runs in the state that the turns
  before it left, whatever happened in them, leaves the state for the next one and gives
  the entry at position \<open>i\<close>. When the \<open>try\<close> of a turn throws (the reference has both ids, is
  not stored, and its ingestion throws \<open>e\<close>), the exception is reported and the entry is
  "Error processing message <id>: <e>" with the two ids and nothing else; so it is for a
  fetch that fails, whatever precedes or follows it. A message that can be fetched and
  parsed and that the mailbox did not send gets an entry with the id of its new message,
  and is stored exactly once when the handler returns. The loop leaves the history cursor as
  it was at every position, and the handler sets it to the payload's history id afterwards,
  in the row of this support email and in no other row.

  Where the helper throws again, the first turn whose \<open>try\<close> throws ends the handler with that
  exception: the state is the one which that turn left, so no later message is processed, and
  the cursor keeps its value.

  In every environment the loop leaves the cursor as it was; a fetch that fails throws inside
  the \<open>try\<close>, and so does a parsed email without a sender.
\<close>

theorem batch_failure_semantics:
  "(\<not> throwInThisEnvironment en \<longrightarrow>
      (\<exists>s' response.
         handleGmailWebhookEvent en gse mailbox data msgs s = (s', Inr response) \<and>
         length (results response) = length msgs \<and>
         (\<forall>i < length msgs.
            processMessage en gse mailbox (msgs ! i) (stateAt en gse mailbox msgs s i) =
              (stateAt en gse mailbox msgs s (Suc i), Inr (results response ! i))) \<and>
         (\<forall>i st e. i < length msgs \<and> hasIds (msgs ! i) \<and>
              persisted (gidOf (msgs ! i)) (stateAt en gse mailbox msgs s i) = [] \<and>
              ingestMessage en gse mailbox (gidOf (msgs ! i)) (tidOf (msgs ! i)) (labelIdsOf (msgs ! i))
                (stateAt en gse mailbox msgs s i) = (st, Inl e) \<longrightarrow>
            results response ! i =
              \<lparr>r_message = ''Error processing message '' @ gidOf (msgs ! i) @ '': '' @ errorToString e,
               responded = None, isAutomatedResponseOrThankYou = None,
               r_gmailMessageId = idOf (msgs ! i), r_gmailThreadId = threadIdOf (msgs ! i),
               r_messageId = None, conversationSlug = None\<rparr> \<and>
            stateAt en gse mailbox msgs s (Suc i) = st\<lparr>captured := captured st @ [e]\<rparr>) \<and>
         (\<forall>i e. i < length msgs \<and> hasIds (msgs ! i) \<and> persisted (gidOf (msgs ! i)) s = [] \<and>
              getMessageById en (gidOf (msgs ! i)) = Inl e \<longrightarrow>
            results response ! i =
              \<lparr>r_message = ''Error processing message '' @ gidOf (msgs ! i) @ '': '' @ errorToString e,
               responded = None, isAutomatedResponseOrThankYou = None,
               r_gmailMessageId = idOf (msgs ! i), r_gmailThreadId = threadIdOf (msgs ! i),
               r_messageId = None, conversationSlug = None\<rparr>) \<and>
         (\<forall>i mail sender. i < length msgs \<and> hasIds (msgs ! i) \<and>
              persisted (gidOf (msgs ! i)) (stateAt en gse mailbox msgs s i) = [] \<and>
              getMessageById en (gidOf (msgs ! i)) = Inr mail \<and>
              parseEmailAddress en (orElse (pm_from mail) []) = Some sender \<and>
              address sender \<noteq> email gse \<longrightarrow>
            r_messageId (results response ! i) =
              Some (freshId (map m_id (conversationMessages (stateAt en gse mailbox msgs s i)))) \<and>
            length (persisted (gidOf (msgs ! i)) s') = 1) \<and>
         (\<forall>i. gmailSupportEmails (stateAt en gse mailbox msgs s i) = gmailSupportEmails s) \<and>
         s' = (stateAt en gse mailbox msgs s (length msgs))
                \<lparr>gmailSupportEmails := cursorSet gse (wd_historyId data) (gmailSupportEmails s)\<rparr> \<and>
         gmailSupportEmails s' =
           map (\<lambda>g. if gse_id g = gse_id gse then g\<lparr>historyId := Some (wd_historyId data)\<rparr> else g)
             (gmailSupportEmails s))) \<and>
   (throwInThisEnvironment en \<and> k < length msgs \<and>
    (\<forall>j < k. \<exists>entry.
       snd (processMessage en gse mailbox (msgs ! j) (stateAt en gse mailbox msgs s j)) = Inr entry) \<and>
    hasIds (msgs ! k) \<and> persisted (gidOf (msgs ! k)) (stateAt en gse mailbox msgs s k) = [] \<and>
    ingestMessage en gse mailbox (gidOf (msgs ! k)) (tidOf (msgs ! k)) (labelIdsOf (msgs ! k))
      (stateAt en gse mailbox msgs s k) = (st, Inl e) \<longrightarrow>
      handleGmailWebhookEvent en gse mailbox data msgs s =
        (st\<lparr>captured := captured st @ [e]\<rparr>, Inl e) \<and>
      st\<lparr>captured := captured st @ [e]\<rparr> = stateAt en gse mailbox msgs s (Suc k) \<and>
      gmailSupportEmails (st\<lparr>captured := captured st @ [e]\<rparr>) = gmailSupportEmails s) \<and>
   gmailSupportEmails (fst (processMessages en gse mailbox msgs s)) = gmailSupportEmails s \<and>
   (getMessageById en gid = Inl x \<longrightarrow>
      ingestMessage en gse mailbox gid tid labels t = (t, Inl x)) \<and>
   (getMessageById en gid = Inr parsed \<and> parseEmailAddress en (orElse (pm_from parsed) []) = None \<longrightarrow>
      (\<exists>y. ingestMessage en gse mailbox gid tid labels t = (t, Inl y)))"
proof -
  have Q: "\<not> throwInThisEnvironment en \<longrightarrow>
      (\<exists>s' response.
         handleGmailWebhookEvent en gse mailbox data msgs s = (s', Inr response) \<and>
         length (results response) = length msgs \<and>
         (\<forall>i < length msgs.
            processMessage en gse mailbox (msgs ! i) (stateAt en gse mailbox msgs s i) =
              (stateAt en gse mailbox msgs s (Suc i), Inr (results response ! i))) \<and>
         (\<forall>i st e. i < length msgs \<and> hasIds (msgs ! i) \<and>
              persisted (gidOf (msgs ! i)) (stateAt en gse mailbox msgs s i) = [] \<and>
              ingestMessage en gse mailbox (gidOf (msgs ! i)) (tidOf (msgs ! i)) (labelIdsOf (msgs ! i))
                (stateAt en gse mailbox msgs s i) = (st, Inl e) \<longrightarrow>
            results response ! i =
              \<lparr>r_message = ''Error processing message '' @ gidOf (msgs ! i) @ '': '' @ errorToString e,
               responded = None, isAutomatedResponseOrThankYou = None,
               r_gmailMessageId = idOf (msgs ! i), r_gmailThreadId = threadIdOf (msgs ! i),
               r_messageId = None, conversationSlug = None\<rparr> \<and>
            stateAt en gse mailbox msgs s (Suc i) = st\<lparr>captured := captured st @ [e]\<rparr>) \<and>
         (\<forall>i e. i < length msgs \<and> hasIds (msgs ! i) \<and> persisted (gidOf (msgs ! i)) s = [] \<and>
              getMessageById en (gidOf (msgs ! i)) = Inl e \<longrightarrow>
            results response ! i =
              \<lparr>r_message = ''Error processing message '' @ gidOf (msgs ! i) @ '': '' @ errorToString e,
               responded = None, isAutomatedResponseOrThankYou = None,
               r_gmailMessageId = idOf (msgs ! i), r_gmailThreadId = threadIdOf (msgs ! i),
               r_messageId = None, conversationSlug = None\<rparr>) \<and>
         (\<forall>i mail sender. i < length msgs \<and> hasIds (msgs ! i) \<and>
              persisted (gidOf (msgs ! i)) (stateAt en gse mailbox msgs s i) = [] \<and>
              getMessageById en (gidOf (msgs ! i)) = Inr mail \<and>
              parseEmailAddress en (orElse (pm_from mail) []) = Some sender \<and>
              address sender \<noteq> email gse \<longrightarrow>
            r_messageId (results response ! i) =
              Some (freshId (map m_id (conversationMessages (stateAt en gse mailbox msgs s i)))) \<and>
            length (persisted (gidOf (msgs ! i)) s') = 1) \<and>
         (\<forall>i. gmailSupportEmails (stateAt en gse mailbox msgs s i) = gmailSupportEmails s) \<and>
         s' = (stateAt en gse mailbox msgs s (length msgs))
                \<lparr>gmailSupportEmails := cursorSet gse (wd_historyId data) (gmailSupportEmails s)\<rparr> \<and>
         gmailSupportEmails s' =
           map (\<lambda>g. if gse_id g = gse_id gse then g\<lparr>historyId := Some (wd_historyId data)\<rparr> else g)
             (gmailSupportEmails s))"
    by (rule impI) (rule batch_quiet)
  have D: "throwInThisEnvironment en \<and> k < length msgs \<and>
    (\<forall>j < k. \<exists>entry.
       snd (processMessage en gse mailbox (msgs ! j) (stateAt en gse mailbox msgs s j)) = Inr entry) \<and>
    hasIds (msgs ! k) \<and> persisted (gidOf (msgs ! k)) (stateAt en gse mailbox msgs s k) = [] \<and>
    ingestMessage en gse mailbox (gidOf (msgs ! k)) (tidOf (msgs ! k)) (labelIdsOf (msgs ! k))
      (stateAt en gse mailbox msgs s k) = (st, Inl e) \<longrightarrow>
      handleGmailWebhookEvent en gse mailbox data msgs s =
        (st\<lparr>captured := captured st @ [e]\<rparr>, Inl e) \<and>
      st\<lparr>captured := captured st @ [e]\<rparr> = stateAt en gse mailbox msgs s (Suc k) \<and>
      gmailSupportEmails (st\<lparr>captured := captured st @ [e]\<rparr>) = gmailSupportEmails s"
  proof (rule impI)
    assume a: "throwInThisEnvironment en \<and> k < length msgs \<and>
      (\<forall>j < k. \<exists>entry.
         snd (processMessage en gse mailbox (msgs ! j) (stateAt en gse mailbox msgs s j)) = Inr entry) \<and>
      hasIds (msgs ! k) \<and> persisted (gidOf (msgs ! k)) (stateAt en gse mailbox msgs s k) = [] \<and>
      ingestMessage en gse mailbox (gidOf (msgs ! k)) (tidOf (msgs ! k)) (labelIdsOf (msgs ! k))
        (stateAt en gse mailbox msgs s k) = (st, Inl e)"
    show "handleGmailWebhookEvent en gse mailbox data msgs s =
        (st\<lparr>captured := captured st @ [e]\<rparr>, Inl e) \<and>
      st\<lparr>captured := captured st @ [e]\<rparr> = stateAt en gse mailbox msgs s (Suc k) \<and>
      gmailSupportEmails (st\<lparr>captured := captured st @ [e]\<rparr>) = gmailSupportEmails s"
      by (rule batch_thrown) (use a in simp_all)
  qed
  have L: "gmailSupportEmails (fst (processMessages en gse mailbox msgs s)) = gmailSupportEmails s"
    by (rule processMessages_cursor)
  have F: "getMessageById en gid = Inl x \<longrightarrow>
      ingestMessage en gse mailbox gid tid labels t = (t, Inl x)"
    by (simp add: ingestMessage_fetch_fails)
  have P: "getMessageById en gid = Inr parsed \<and> parseEmailAddress en (orElse (pm_from parsed) []) = None \<longrightarrow>
      (\<exists>y. ingestMessage en gse mailbox gid tid labels t = (t, Inl y))"
    using ingestMessage_parse_fails[of en gid parsed gse mailbox tid labels t] by simp
  show ?thesis by (intro conjI) (rule Q D L F P)+
qed


theorem batch_failure_semantics_witness:
  "(\<exists>s' response.
     handleGmailWebhookEvent batchEnv supportEmail exampleMailbox exampleData
       [goneMessage, noSenderMessage, firstMessage] cursorDb = (s', Inr response) \<and>
     length (results response) = 3 \<and>
     results response ! 0 =
       \<lparr>r_message = ''Error processing message gone: Error: Request failed: Not Found'',
        responded = None, isAutomatedResponseOrThankYou = None,
        r_gmailMessageId = Some ''gone'', r_gmailThreadId = Some ''gone'',
        r_messageId = None, conversationSlug = None\<rparr> \<and>
     results response ! 1 =
       \<lparr>r_message = ''Error processing message nofrom: NonRetriableError: Value is undefined'',
        responded = None, isAutomatedResponseOrThankYou = None,
        r_gmailMessageId = Some ''nofrom'', r_gmailThreadId = Some ''nofrom'',
        r_messageId = None, conversationSlug = None\<rparr> \<and>
     r_messageId (results response ! 2) = Some 1 \<and>
     length (persisted ''m1'' s') = 1 \<and>
     gmailSupportEmails s' = [supportEmail\<lparr>historyId := Some 50\<rparr>]) \<and>
   handleGmailWebhookEvent devBatchEnv supportEmail exampleMailbox exampleData
     [unthreaded, goneMessage, firstMessage] cursorDb =
     (cursorDb\<lparr>captured := [RequestFailed ''Not Found'']\<rparr>, Inl (RequestFailed ''Not Found''))"
proof -
  let ?e = "RequestFailed ''Not Found''"
  let ?n = "NonRetriableError ''Value is undefined''"
  let ?msgs = "[goneMessage, noSenderMessage, firstMessage]"
  let ?at = "stateAt batchEnv supportEmail exampleMailbox ?msgs cursorDb"
  have quiet: "\<not> throwInThisEnvironment batchEnv" by (rule batchEnv_sel)
  from batch_failure_semantics[where en=batchEnv and gse=supportEmail and mailbox=exampleMailbox
      and data=exampleData and msgs="?msgs" and s=cursorDb, THEN conjunct1, rule_format, OF quiet]
  obtain s' response where
    h: "handleGmailWebhookEvent batchEnv supportEmail exampleMailbox exampleData ?msgs cursorDb =
          (s', Inr response)"
    and len: "length (results response) = length ?msgs"
    and thrown: "\<forall>i st e. i < length ?msgs \<and> hasIds (?msgs ! i) \<and>
              persisted (gidOf (?msgs ! i)) (?at i) = [] \<and>
              ingestMessage batchEnv supportEmail exampleMailbox (gidOf (?msgs ! i)) (tidOf (?msgs ! i))
                (labelIdsOf (?msgs ! i)) (?at i) = (st, Inl e) \<longrightarrow>
            results response ! i =
              \<lparr>r_message = ''Error processing message '' @ gidOf (?msgs ! i) @ '': '' @ errorToString e,
               responded = None, isAutomatedResponseOrThankYou = None,
               r_gmailMessageId = idOf (?msgs ! i), r_gmailThreadId = threadIdOf (?msgs ! i),
               r_messageId = None, conversationSlug = None\<rparr> \<and>
            ?at (Suc i) = st\<lparr>captured := captured st @ [e]\<rparr>"
    and happy: "\<forall>i mail sender. i < length ?msgs \<and> hasIds (?msgs ! i) \<and>
              persisted (gidOf (?msgs ! i)) (?at i) = [] \<and>
              getMessageById batchEnv (gidOf (?msgs ! i)) = Inr mail \<and>
              parseEmailAddress batchEnv (orElse (pm_from mail) []) = Some sender \<and>
              address sender \<noteq> email supportEmail \<longrightarrow>
            r_messageId (results response ! i) =
              Some (freshId (map m_id (conversationMessages (?at i)))) \<and>
            length (persisted (gidOf (?msgs ! i)) s') = 1"
    and cur: "gmailSupportEmails s' =
        map (\<lambda>g. if gse_id g = gse_id supportEmail
                 then g\<lparr>historyId := Some (wd_historyId exampleData)\<rparr> else g)
          (gmailSupportEmails cursorDb)"
    by (elim exE conjE)
  have a0: "?at 0 = cursorDb" by (simp add: stateAt_def)
  have i0: "ingestMessage batchEnv supportEmail exampleMailbox ''gone'' ''gone'' (labelIdsOf goneMessage)
      cursorDb = (cursorDb, Inl ?e)"
    by (simp add: ingestMessage_cases batchEnv_sel)
  have t0: "results response ! 0 =
       \<lparr>r_message = ''Error processing message '' @ gidOf (?msgs ! 0) @ '': '' @ errorToString ?e,
        responded = None, isAutomatedResponseOrThankYou = None,
        r_gmailMessageId = idOf (?msgs ! 0), r_gmailThreadId = threadIdOf (?msgs ! 0),
        r_messageId = None, conversationSlug = None\<rparr> \<and>
     ?at (Suc 0) = cursorDb\<lparr>captured := captured cursorDb @ [?e]\<rparr>"
    by (rule thrown[rule_format]) (simp add: a0 msg_sel i0 persisted_def cursorDb_sel)
  then have r0: "results response ! 0 =
       \<lparr>r_message = ''Error processing message gone: Error: Request failed: Not Found'',
        responded = None, isAutomatedResponseOrThankYou = None,
        r_gmailMessageId = Some ''gone'', r_gmailThreadId = Some ''gone'',
        r_messageId = None, conversationSlug = None\<rparr>"
    and a1: "?at (Suc 0) = cursorDb\<lparr>captured := [?e]\<rparr>"
    by (simp_all add: msg_sel noSender_sel cursorDb_sel)
  have i1: "ingestMessage batchEnv supportEmail exampleMailbox ''nofrom'' ''nofrom''
      (labelIdsOf noSenderMessage) (cursorDb\<lparr>captured := [?e]\<rparr>) =
        (cursorDb\<lparr>captured := [?e]\<rparr>, Inl ?n)"
    by (simp add: ingestMessage_cases batchEnv_sel getParsedEmailInfo_def)
  have t1: "results response ! Suc 0 =
       \<lparr>r_message = ''Error processing message '' @ gidOf (?msgs ! Suc 0) @ '': '' @ errorToString ?n,
        responded = None, isAutomatedResponseOrThankYou = None,
        r_gmailMessageId = idOf (?msgs ! Suc 0), r_gmailThreadId = threadIdOf (?msgs ! Suc 0),
        r_messageId = None, conversationSlug = None\<rparr> \<and>
     ?at (Suc (Suc 0)) =
       (cursorDb\<lparr>captured := [?e]\<rparr>)\<lparr>captured := captured (cursorDb\<lparr>captured := [?e]\<rparr>) @ [?n]\<rparr>"
    by (rule thrown[rule_format]) (simp add: a1 noSender_sel i1 persisted_def cursorDb_sel)
  then have r1: "results response ! 1 =
       \<lparr>r_message = ''Error processing message nofrom: NonRetriableError: Value is undefined'',
        responded = None, isAutomatedResponseOrThankYou = None,
        r_gmailMessageId = Some ''nofrom'', r_gmailThreadId = Some ''nofrom'',
        r_messageId = None, conversationSlug = None\<rparr>"
    and a2: "?at (Suc (Suc 0)) = cursorDb\<lparr>captured := [?e, ?n]\<rparr>"
    by (simp_all add: noSender_sel)
  have o: "address exampleSender \<noteq> email supportEmail"
    by (simp add: exampleSender_def supportEmail_def)
  have t2: "r_messageId (results response ! Suc (Suc 0)) =
        Some (freshId (map m_id (conversationMessages (?at (Suc (Suc 0)))))) \<and>
      length (persisted (gidOf (?msgs ! Suc (Suc 0))) s') = 1"
    by (rule happy[rule_format, where mail=exampleMail and sender=exampleSender])
       (simp add: a2 msg_sel batchEnv_sel o persisted_def cursorDb_sel)
  then have r2: "r_messageId (results response ! 2) = Some 1"
    and p2: "length (persisted ''m1'' s') = 1"
    by (simp_all add: a2 msg_sel cursorDb_sel freshId_def numeral_2_eq_2)
  have c: "gmailSupportEmails s' = [supportEmail\<lparr>historyId := Some 50\<rparr>]"
    unfolding cur by (simp add: cursorDb_sel exampleData_def)
  have l: "length (results response) = 3" using len by simp
  have quietHalf: "\<exists>s' response.
     handleGmailWebhookEvent batchEnv supportEmail exampleMailbox exampleData
       [goneMessage, noSenderMessage, firstMessage] cursorDb = (s', Inr response) \<and>
     length (results response) = 3 \<and>
     results response ! 0 =
       \<lparr>r_message = ''Error processing message gone: Error: Request failed: Not Found'',
        responded = None, isAutomatedResponseOrThankYou = None,
        r_gmailMessageId = Some ''gone'', r_gmailThreadId = Some ''gone'',
        r_messageId = None, conversationSlug = None\<rparr> \<and>
     results response ! 1 =
       \<lparr>r_message = ''Error processing message nofrom: NonRetriableError: Value is undefined'',
        responded = None, isAutomatedResponseOrThankYou = None,
        r_gmailMessageId = Some ''nofrom'', r_gmailThreadId = Some ''nofrom'',
        r_messageId = None, conversationSlug = None\<rparr> \<and>
     r_messageId (results response ! 2) = Some 1 \<and>
     length (persisted ''m1'' s') = 1 \<and>
     gmailSupportEmails s' = [supportEmail\<lparr>historyId := Some 50\<rparr>]"
    by (rule exI[of _ s'], rule exI[of _ response], intro conjI) (rule h l r0 r1 r2 p2 c)+
  let ?dm = "[unthreaded, goneMessage, firstMessage]"
  let ?dat = "stateAt devBatchEnv supportEmail exampleMailbox ?dm cursorDb"
  have m0: "processMessage devBatchEnv supportEmail exampleMailbox unthreaded cursorDb =
      (cursorDb, Inr (skipped ''Skipped - missing message ID or thread ID'' (idOf unthreaded)
                        (threadIdOf unthreaded)))"
    by (simp add: processMessage_eq noSender_sel)
  have d0: "?dat 0 = cursorDb" by (simp add: stateAt_def)
  have d1: "?dat (Suc 0) = cursorDb" by (simp add: stateAt_def m0)
  have before: "\<forall>j < Suc 0. \<exists>entry.
       snd (processMessage devBatchEnv supportEmail exampleMailbox (?dm ! j) (?dat j)) = Inr entry"
    by (simp add: d0 m0)
  have di: "ingestMessage devBatchEnv supportEmail exampleMailbox (gidOf (?dm ! Suc 0)) (tidOf (?dm ! Suc 0))
      (labelIdsOf (?dm ! Suc 0)) (?dat (Suc 0)) = (cursorDb, Inl ?e)"
    by (simp add: d1 msg_sel ingestMessage_cases batchEnv_sel)
  have hyp: "throwInThisEnvironment devBatchEnv \<and> Suc 0 < length ?dm \<and>
    (\<forall>j < Suc 0. \<exists>entry.
       snd (processMessage devBatchEnv supportEmail exampleMailbox (?dm ! j) (?dat j)) = Inr entry) \<and>
    hasIds (?dm ! Suc 0) \<and> persisted (gidOf (?dm ! Suc 0)) (?dat (Suc 0)) = [] \<and>
    ingestMessage devBatchEnv supportEmail exampleMailbox (gidOf (?dm ! Suc 0)) (tidOf (?dm ! Suc 0))
      (labelIdsOf (?dm ! Suc 0)) (?dat (Suc 0)) = (cursorDb, Inl ?e)"
    using before di by (simp add: batchEnv_sel msg_sel d1 persisted_def cursorDb_sel)
  from batch_failure_semantics[where en=devBatchEnv and gse=supportEmail and mailbox=exampleMailbox
      and data=exampleData and msgs="?dm" and s=cursorDb and k="Suc 0" and st=cursorDb and e="?e",
      THEN conjunct2, THEN conjunct1, rule_format, OF hyp]
  have devHalf: "handleGmailWebhookEvent devBatchEnv supportEmail exampleMailbox exampleData ?dm cursorDb =
     (cursorDb\<lparr>captured := [RequestFailed ''Not Found'']\<rparr>, Inl (RequestFailed ''Not Found''))"
    by (simp add: cursorDb_sel)
  from quietHalf devHalf show ?thesis by (rule conjI)
qed

text \<open>
  Where the helper throws again (development), the first failing fetch ends the handler with
  that exception: no entry is recorded, the following message is not processed and the
  cursor keeps its old value.
\<close>

theorem batch_failure_semantics_counterexample:
  "handleGmailWebhookEvent devEnv supportEmail exampleMailbox exampleData
     [goneMessage, firstMessage] cursorDb =
     (cursorDb\<lparr>captured := [RequestFailed ''Not Found'']\<rparr>, Inl (RequestFailed ''Not Found'')) \<and>
   conversationMessages (cursorDb\<lparr>captured := [RequestFailed ''Not Found'']\<rparr>) = [] \<and>
   gmailSupportEmails (cursorDb\<lparr>captured := [RequestFailed ''Not Found'']\<rparr>) = [supportEmail] \<and>
   historyId supportEmail = Some 40 \<and> wd_historyId exampleData = 50"
proof -
  have g: "getMessageById devEnv ''gone'' = Inl (RequestFailed ''Not Found'')"
    "throwInThisEnvironment devEnv"
    by (simp_all add: devEnv_def inboxEnv_def exampleEnv_def)
  have "processMessage devEnv supportEmail exampleMailbox goneMessage cursorDb =
      (cursorDb\<lparr>captured := [RequestFailed ''Not Found'']\<rparr>, Inl (RequestFailed ''Not Found''))"
    by (simp add: processMessage_eq msg_sel existingEmail_def cursorDb_sel ingestMessage_cases g
        catchIngestion_Inl)
  then have "processMessages devEnv supportEmail exampleMailbox [goneMessage, firstMessage] cursorDb =
      (cursorDb\<lparr>captured := [RequestFailed ''Not Found'']\<rparr>, Inl (RequestFailed ''Not Found''))"
    by simp
  then have "handleGmailWebhookEvent devEnv supportEmail exampleMailbox exampleData
     [goneMessage, firstMessage] cursorDb =
     (cursorDb\<lparr>captured := [RequestFailed ''Not Found'']\<rparr>, Inl (RequestFailed ''Not Found''))"
    by (rule handle_thrown)
  then show ?thesis by (simp add: cursorDb_sel supportEmail_def exampleData_def)
qed

section \<open>The body of an email\<close>

lemma replaceCRLF_none: "\<not> hasCRLF t \<Longrightarrow> replaceCRLF t = t"
  by (induction t rule: replaceCRLF.induct) auto

lemma hasCRLF_br: "hasCRLF (''<br/>'' @ t) = hasCRLF t"
  by (cases t) simp_all

lemma replaceCRLF_Cons:
  "\<exists>x xs. replaceCRLF (d # cs) = x # xs \<and> (x = d \<or> x = CHR ''<'')"
  by (cases cs) auto

lemma replaceCRLF_pair:
  "replaceCRLF (CHR 0x0D # CHR 0x0A # cs) = ''<br/>'' @ replaceCRLF cs"
  by simp

lemma replaceCRLF_other:
  "\<not> (c = CHR 0x0D \<and> d = CHR 0x0A) \<Longrightarrow> replaceCRLF (c # d # cs) = c # replaceCRLF (d # cs)"
  by simp

lemma replaceCRLF_no_CRLF: "\<not> hasCRLF (replaceCRLF t)"
proof (induction t rule: replaceCRLF.induct)
  case (1 c d cs)
  show ?case
  proof (cases "c = CHR 0x0D \<and> d = CHR 0x0A")
    case True
    with 1 have "\<not> hasCRLF (replaceCRLF cs)" by simp
    then have "\<not> hasCRLF (''<br/>'' @ replaceCRLF cs)" by (subst hasCRLF_br)
    then show ?thesis using True by (simp only: replaceCRLF_pair not_False_eq_True)
  next
    case False
    with 1 have ih: "\<not> hasCRLF (replaceCRLF (d # cs))" by simp
    obtain x xs where x: "replaceCRLF (d # cs) = x # xs" "x = d \<or> x = CHR ''<''"
      using replaceCRLF_Cons by blast
    have "\<not> (c = CHR 0x0D \<and> x = CHR 0x0A)" using False x(2) by auto
    then have "\<not> hasCRLF (c # x # xs)" using ih x(1) by simp
    then show ?thesis using x(1) by (simp only: replaceCRLF_other[OF False] not_False_eq_True)
  qed
qed simp_all

lemma replaceCRLF_append:
  "replaceCRLF (u @ [CHR 0x0D, CHR 0x0A] @ v) = replaceCRLF u @ ''<br/>'' @ replaceCRLF v"
proof (induction u rule: replaceCRLF.induct)
  case (1 c d cs)
  then show ?case by (cases "c = CHR 0x0D \<and> d = CHR 0x0A") auto
qed simp_all


lemma matchBrTag_shorter: "matchBrTag t = Some rest \<Longrightarrow> length rest < length t"
proof -
  assume a: "matchBrTag t = Some rest"
  then obtain x y z r0 where t: "t = x # y # z # r0"
    by (cases t rule: list.exhaust[case_product list.exhaust])
       (auto simp: matchBrTag_def split: list.splits)
  have l: "length (dropWhile isWhiteSpace r0) \<le> length r0" by (rule length_dropWhile_le)
  from a t have "\<exists>pre. dropWhile isWhiteSpace r0 = pre @ rest \<and> pre \<noteq> []"
    by (auto simp: matchBrTag_def split: list.splits if_splits)
  then obtain pre where "dropWhile isWhiteSpace r0 = pre @ rest" "pre \<noteq> []" by blast
  then have "length rest < length (dropWhile isWhiteSpace r0)" by (cases pre) auto
  with l t show ?thesis by simp
qed

lemma dropWhile_append_Cons:
  "dropWhile P xs = d # r \<Longrightarrow> dropWhile P (xs @ u) = d # r @ u"
  by (induction xs) (auto split: if_splits)

lemma matchBrTag_append: "matchBrTag t = Some rest \<Longrightarrow> matchBrTag (t @ u) = Some (rest @ u)"
proof -
  assume a: "matchBrTag t = Some rest"
  then obtain x y z r0 where t: "t = x # y # z # r0"
    by (cases t rule: list.exhaust[case_product list.exhaust])
       (auto simp: matchBrTag_def split: list.splits)
  from a t obtain d r where d: "dropWhile isWhiteSpace r0 = d # r"
    by (auto simp: matchBrTag_def split: list.splits if_splits)
  have d': "dropWhile isWhiteSpace (r0 @ u) = d # r @ u" by (rule dropWhile_append_Cons[OF d])
  from a show ?thesis
    unfolding t by (auto simp: matchBrTag_def d d' split: list.splits if_splits)
qed

lemma brTags_Suc:
  "brTags (Suc k) t = (\<exists>rest. matchBrTag t = Some rest \<and> (rest = [] \<or> brTags k rest))"
  by (simp split: option.splits)

lemma brTags_mono: "brTags k t \<Longrightarrow> brTags (Suc k) t"
proof (induction k arbitrary: t)
  case 0
  then show ?case by simp
next
  case (Suc k)
  from Suc.prems obtain rest where m: "matchBrTag t = Some rest" "rest = [] \<or> brTags k rest"
    unfolding brTags_Suc by blast
  from m(2) Suc.IH have "rest = [] \<or> brTags (Suc k) rest" by blast
  with m(1) show ?case unfolding brTags_Suc[of "Suc k"] by blast
qed

lemma brTags_le: "brTags k t \<Longrightarrow> k \<le> k' \<Longrightarrow> brTags k' t"
proof (induction k' arbitrary: k)
  case 0
  then show ?case by simp
next
  case (Suc k')
  show ?case
  proof (cases "k = Suc k'")
    case True
    with Suc show ?thesis by simp
  next
    case False
    with Suc have "brTags k' t" by simp
    then show ?thesis by (rule brTags_mono)
  qed
qed

lemma brTags_allBrTags: "brTags k t \<Longrightarrow> allBrTags t"
proof (induction k arbitrary: t)
  case 0
  then show ?case by simp
next
  case (Suc k)
  then obtain rest where m: "matchBrTag t = Some rest" "rest = [] \<or> brTags k rest"
    unfolding brTags_Suc by blast
  from matchBrTag_shorter[OF m(1)] obtain n where n: "length t = Suc n" "length rest \<le> n"
    by (cases "length t") auto
  have "rest = [] \<or> brTags n rest"
  proof (cases "rest = []")
    case True
    then show ?thesis by simp
  next
    case False
    with m have "brTags k rest" by simp
    then have "allBrTags rest" by (rule Suc.IH)
    then have "brTags (length rest) rest" by (simp add: allBrTags_def)
    then show ?thesis using n(2) brTags_le by blast
  qed
  with m(1) n(1) show ?case by (simp add: allBrTags_def)
qed

lemma brTags_append: "brTags k a \<Longrightarrow> brTags k' b \<Longrightarrow> brTags (k + k') (a @ b)"
proof (induction k arbitrary: a)
  case 0
  then show ?case by simp
next
  case (Suc k)
  then obtain rest where m: "matchBrTag a = Some rest" "rest = [] \<or> brTags k rest"
    unfolding brTags_Suc by blast
  have ma: "matchBrTag (a @ b) = Some (rest @ b)" by (rule matchBrTag_append[OF m(1)])
  have "brTags (k + k') (rest @ b)"
  proof (cases "rest = []")
    case True
    then show ?thesis using Suc.prems(2) brTags_le[of k' b "k + k'"] by simp
  next
    case False
    with m have "brTags k rest" by simp
    then show ?thesis using Suc.IH Suc.prems(2) by blast
  qed
  with ma show ?case by simp
qed

lemma allBrTags_append: "allBrTags a \<Longrightarrow> allBrTags b \<Longrightarrow> allBrTags (a @ b)"
  unfolding allBrTags_def using brTags_append brTags_allBrTags allBrTags_def by blast

lemma stripTrailingBr_split:
  "\<exists>suffix. t = stripTrailingBr t @ suffix \<and> (suffix = [] \<or> allBrTags suffix)"
proof (induction t)
  case Nil
  show ?case by simp
next
  case (Cons c cs)
  show ?case
  proof (cases "allBrTags (c # cs)")
    case True
    then show ?thesis by simp
  next
    case False
    with Cons show ?thesis by auto
  qed
qed

lemma not_endsWithBrTags_stripTrailingBr: "\<not> endsWithBrTags (stripTrailingBr t)"
proof (induction t)
  case Nil
  show ?case by simp
next
  case (Cons c cs)
  show ?case
  proof (cases "allBrTags (c # cs)")
    case True
    then show ?thesis by simp
  next
    case False
    obtain suffix where s: "cs = stripTrailingBr cs @ suffix" "suffix = [] \<or> allBrTags suffix"
      using stripTrailingBr_split by blast
    have "\<not> allBrTags (c # stripTrailingBr cs)"
    proof
      assume a: "allBrTags (c # stripTrailingBr cs)"
      show False
      proof (cases "suffix = []")
        case True
        with s(1) a False show False by simp
      next
        case ne: False
        with s(2) have "allBrTags suffix" by simp
        from allBrTags_append[OF a this] s(1) False show False by simp
      qed
    qed
    with False Cons show ?thesis by simp
  qed
qed

lemma endsWithBrTags_iff: "endsWithBrTags t \<longleftrightarrow> (\<exists>i < length t. allBrTags (drop i t))"
proof (induction t)
  case Nil
  show ?case by simp
next
  case (Cons c cs)
  show ?case
  proof
    assume "endsWithBrTags (c # cs)"
    then consider "allBrTags (c # cs)" | "endsWithBrTags cs" by auto
    then show "\<exists>i < length (c # cs). allBrTags (drop i (c # cs))"
    proof cases
      case 1
      then have "allBrTags (drop 0 (c # cs))" by simp
      then show ?thesis by blast
    next
      case 2
      with Cons obtain i where "i < length cs" "allBrTags (drop i cs)" by blast
      then have "Suc i < length (c # cs) \<and> allBrTags (drop (Suc i) (c # cs))" by simp
      then show ?thesis by blast
    qed
  next
    assume "\<exists>i < length (c # cs). allBrTags (drop i (c # cs))"
    then obtain i where i: "i < length (c # cs)" "allBrTags (drop i (c # cs))" by blast
    show "endsWithBrTags (c # cs)"
    proof (cases i)
      case 0
      with i show ?thesis by simp
    next
      case (Suc k)
      with i have "k < length cs \<and> allBrTags (drop k cs)" by simp
      with Cons show ?thesis by auto
    qed
  qed
qed


text \<open>
  C9, as the code has it. Without an HTML part, the body is \<open>textAsHtml\<close> (or \<open>text\<close> when that
  is absent) with every CR LF pair replaced by the tag \<open><br/>\<close>: the replacement distributes
  over a pair, leaves a string without pairs as it is (a lone CR or LF stays) and leaves no
  pair behind. With an HTML part, the body is that part unchanged. An absent or empty body
  gives the empty string. Otherwise the result is the NFKD normalization of the content (the
  DOM's \<open>body.innerHTML\<close>, or the body itself when the document has no body) without its
  longest suffix of line-break tags: what is removed is empty or consists of such tags only,
  and no non-empty suffix of what remains does.
\<close>

theorem parseEmailBody_normalization:
  "(pm_html mail = None \<longrightarrow>
      parsedEmailBody mail =
        map_option replaceCRLF
          (case pm_textAsHtml mail of Some t \<Rightarrow> Some t | None \<Rightarrow> pm_text mail)) \<and>
   (\<forall>html. pm_html mail = Some html \<longrightarrow> parsedEmailBody mail = Some html) \<and>
   (\<forall>u v. replaceCRLF (u @ [CHR 0x0D, CHR 0x0A] @ v) = replaceCRLF u @ ''<br/>'' @ replaceCRLF v) \<and>
   (\<forall>t. \<not> hasCRLF t \<longrightarrow> replaceCRLF t = t) \<and>
   (\<forall>t. \<not> hasCRLF (replaceCRLF t)) \<and>
   (\<not> truthy (parsedEmailBody mail) \<longrightarrow> parseEmailBody en mail = []) \<and>
   (\<forall>emailBody. parsedEmailBody mail = Some emailBody \<and> emailBody \<noteq> [] \<longrightarrow>
      (\<exists>content suffix.
          content = (case bodyInnerHTML en emailBody of Some inner \<Rightarrow> inner | None \<Rightarrow> emailBody) \<and>
          content = stripTrailingBr content @ suffix \<and> (suffix = [] \<or> allBrTags suffix) \<and>
          \<not> endsWithBrTags (stripTrailingBr content) \<and>
          parseEmailBody en mail = normalizeNFKD en (stripTrailingBr content)))"
proof -
  have 1: "pm_html mail = None \<longrightarrow>
      parsedEmailBody mail =
        map_option replaceCRLF
          (case pm_textAsHtml mail of Some t \<Rightarrow> Some t | None \<Rightarrow> pm_text mail)"
    by (simp add: parsedEmailBody_def)
  have 2: "\<forall>html. pm_html mail = Some html \<longrightarrow> parsedEmailBody mail = Some html"
    by (simp add: parsedEmailBody_def)
  have 3: "\<forall>u v. replaceCRLF (u @ [CHR 0x0D, CHR 0x0A] @ v) = replaceCRLF u @ ''<br/>'' @ replaceCRLF v"
    using replaceCRLF_append by blast
  have 4: "\<forall>t. \<not> hasCRLF t \<longrightarrow> replaceCRLF t = t" using replaceCRLF_none by blast
  have 5: "\<forall>t. \<not> hasCRLF (replaceCRLF t)" using replaceCRLF_no_CRLF by blast
  have 6: "\<not> truthy (parsedEmailBody mail) \<longrightarrow> parseEmailBody en mail = []"
    by (simp add: parseEmailBody_def)
  have 7: "\<forall>emailBody. parsedEmailBody mail = Some emailBody \<and> emailBody \<noteq> [] \<longrightarrow>
      (\<exists>content suffix.
          content = (case bodyInnerHTML en emailBody of Some inner \<Rightarrow> inner | None \<Rightarrow> emailBody) \<and>
          content = stripTrailingBr content @ suffix \<and> (suffix = [] \<or> allBrTags suffix) \<and>
          \<not> endsWithBrTags (stripTrailingBr content) \<and>
          parseEmailBody en mail = normalizeNFKD en (stripTrailingBr content))"
  proof (intro allI impI)
    fix emailBody
    assume a: "parsedEmailBody mail = Some emailBody \<and> emailBody \<noteq> []"
    let ?content = "case bodyInnerHTML en emailBody of Some inner \<Rightarrow> inner | None \<Rightarrow> emailBody"
    obtain suffix where s: "?content = stripTrailingBr ?content @ suffix" "suffix = [] \<or> allBrTags suffix"
      using stripTrailingBr_split by blast
    have n: "\<not> endsWithBrTags (stripTrailingBr ?content)"
      by (rule not_endsWithBrTags_stripTrailingBr)
    have p: "parseEmailBody en mail = normalizeNFKD en (stripTrailingBr ?content)"
      using a by (simp add: parseEmailBody_def truthy_def orElse_def Let_def)
    from s n p show "\<exists>content suffix.
          content = (case bodyInnerHTML en emailBody of Some inner \<Rightarrow> inner | None \<Rightarrow> emailBody) \<and>
          content = stripTrailingBr content @ suffix \<and> (suffix = [] \<or> allBrTags suffix) \<and>
          \<not> endsWithBrTags (stripTrailingBr content) \<and>
          parseEmailBody en mail = normalizeNFKD en (stripTrailingBr content)"
      by blast
  qed
  from 1 2 3 4 5 6 7 show ?thesis by (intro conjI)
qed

lemma strip_example: "stripTrailingBr ''Hi<br/>there<br/><BR >'' = ''Hi<br/>there''"
  by code_simp

lemma plainMail_body: "parsedEmailBody plainMail = Some ''Hi<br/>there<br/><BR >''"
  by (simp add: parsedEmailBody_def plainMail_def exampleMail_def)

theorem parseEmailBody_normalization_witness:
  "parsedEmailBody plainMail = Some ''Hi<br/>there<br/><BR >'' \<and>
   parseEmailBody exampleEnv plainMail = ''Hi<br/>there'' \<and>
   parsedEmailBody exampleMail = Some ''<p>Can you help?</p>''"
proof -
  have h: "pm_html plainMail = None" by (simp add: plainMail_def)
  have e: "bodyInnerHTML exampleEnv b = Some b" "normalizeNFKD exampleEnv b = b" for b
    by (simp_all add: exampleEnv_def)
  note t = parseEmailBody_normalization[where mail=plainMail and en=exampleEnv]
  from t plainMail_body obtain content where
    c: "content = (case bodyInnerHTML exampleEnv ''Hi<br/>there<br/><BR >'' of Some inner \<Rightarrow> inner
                   | None \<Rightarrow> ''Hi<br/>there<br/><BR >'')"
       "parseEmailBody exampleEnv plainMail = normalizeNFKD exampleEnv (stripTrailingBr content)"
    by auto
  have ce: "content = ''Hi<br/>there<br/><BR >''" using c(1) by (simp only: e option.case)
  have "parseEmailBody exampleEnv plainMail = stripTrailingBr content"
    using c(2) by (simp only: e)
  then have 1: "parseEmailBody exampleEnv plainMail = ''Hi<br/>there''"
    unfolding ce strip_example .
  have 2: "parsedEmailBody exampleMail = Some ''<p>Can you help?</p>''"
    using parseEmailBody_normalization[where mail=exampleMail and en=exampleEnv]
    by (simp add: exampleMail_def)
  from plainMail_body 1 2 show ?thesis by simp
qed

text \<open>
  The claim as stated fails: a plain-text body whose line break is a lone LF reaches the
  result with the line break in place, and a CR LF pair becomes the line-break tag
  \<open><br/>\<close>, not a paragraph break.
\<close>

theorem parseEmailBody_counterexample:
  "pm_html lfMail = None \<and>
   parsedEmailBody lfMail = Some [CHR ''a'', CHR 0x0A, CHR ''b''] \<and>
   parseEmailBody exampleEnv lfMail = [CHR ''a'', CHR 0x0A, CHR ''b''] \<and>
   pm_html crlfMail = None \<and>
   parsedEmailBody crlfMail = Some ''a<br/>b''"
  by (simp add: lfMail_def crlfMail_def parsedEmailBody_def parseEmailBody_def truthy_def orElse_def
      exampleEnv_def allBrTags_def matchBrTag_def)

end
